theory Spec2Isabelle
  imports Main
begin

section \<open>RDF terms and the triple store\<close>

text \<open>
  The catalog of \<^verbatim>\<open>DCAT.py\<close> keeps all its facts in one rdflib \<^verbatim>\<open>Graph\<close>. A term of
  the graph is a \<^verbatim>\<open>URIRef\<close>, a \<^verbatim>\<open>BNode\<close> or a \<^verbatim>\<open>Literal\<close> (lexical form, language
  tag, datatype). Blank node identifiers are drawn from a supply that never hands out
  the same identifier twice; the supply is a counter here.
\<close>

datatype node =
    URIRef string
  | BNode nat
  | Literal string "string option" "string option"

type_synonym triple = "node \<times> node \<times> node"

definition subj :: "triple \<Rightarrow> node" where
  "subj t = fst t"

definition pred :: "triple \<Rightarrow> node" where
  "pred t = fst (snd t)"

definition obj :: "triple \<Rightarrow> node" where
  "obj t = snd (snd t)"

text \<open>
  The graph is a set of triples: adding a triple that is already there changes nothing.
  It is kept as a list without repetitions, in insertion order, because a query returns
  its rows as a sequence. The order in which rdflib returns rows is its own; the
  statements below are about which rows there are, not about their order.
\<close>

definition graph_add :: "triple \<Rightarrow> triple list \<Rightarrow> triple list" where
  "graph_add t G = (if t \<in> set G then G else G @ [t])"

text \<open>A pattern is a triple with \<^verbatim>\<open>None\<close> as the wildcard, as in \<^verbatim>\<open>Graph.triples\<close>.\<close>

type_synonym pattern = "node option \<times> node option \<times> node option"

definition fits :: "node option \<Rightarrow> node \<Rightarrow> bool" where
  "fits p n = (case p of None \<Rightarrow> True | Some m \<Rightarrow> m = n)"

definition matches :: "pattern \<Rightarrow> triple \<Rightarrow> bool" where
  "matches p t =
     (fits (fst p) (subj t) \<and> fits (fst (snd p)) (pred t) \<and> fits (snd (snd p)) (obj t))"

definition graph_triples :: "pattern \<Rightarrow> triple list \<Rightarrow> triple list" where
  "graph_triples p G = filter (matches p) G"

definition graph_objects :: "node \<Rightarrow> node \<Rightarrow> triple list \<Rightarrow> node list" where
  "graph_objects s p G = map obj (graph_triples (Some s, Some p, None) G)"

definition graph_remove :: "pattern \<Rightarrow> triple list \<Rightarrow> triple list" where
  "graph_remove p G = filter (\<lambda>t. \<not> matches p t) G"

definition exact :: "triple \<Rightarrow> pattern" where
  "exact t = (Some (subj t), Some (pred t), Some (obj t))"

subsection \<open>Namespaces\<close>

definition ns_term :: "string \<Rightarrow> string \<Rightarrow> node" where
  "ns_term ns n = URIRef (ns @ n)"

definition RDF_NS :: string where
  "RDF_NS = ''http://www.w3.org/1999/02/22-rdf-syntax-ns#''"

definition RDFS_NS :: string where
  "RDFS_NS = ''http://www.w3.org/2000/01/rdf-schema#''"

definition OWL_NS :: string where
  "OWL_NS = ''http://www.w3.org/2002/07/owl#''"

definition SKOS_NS :: string where
  "SKOS_NS = ''http://www.w3.org/2004/02/skos/core#''"

definition DCAT_NS :: string where
  "DCAT_NS = ''http://www.w3.org/ns/dcat#''"

definition DCTERMS_NS :: string where
  "DCTERMS_NS = ''http://purl.org/dc/terms/''"

definition XSD_NS :: string where
  "XSD_NS = ''http://www.w3.org/2001/XMLSchema#''"

definition DATASET_NS :: string where
  "DATASET_NS = ''http://data.example.com/dataset/''"

definition FIELD_NS :: string where
  "FIELD_NS = ''http://data.example.com/fields/''"

definition FIBO_NS :: string where
  "FIBO_NS = ''https://spec.edmcouncil.org/fibo/ontology/master/2020Q1/prod.fibo-quickstart.ttl#''"

definition EX_NS :: string where
  "EX_NS = ''http://example.org/terms#''"

definition RDF_type :: node where
  "RDF_type = ns_term RDF_NS ''type''"

definition RDFS_label :: node where
  "RDFS_label = ns_term RDFS_NS ''label''"

definition RDFS_seeAlso :: node where
  "RDFS_seeAlso = ns_term RDFS_NS ''seeAlso''"

definition RDFS_comment :: node where
  "RDFS_comment = ns_term RDFS_NS ''comment''"

definition OWL_Class :: node where
  "OWL_Class = ns_term OWL_NS ''Class''"

definition SKOS_Concept :: node where
  "SKOS_Concept = ns_term SKOS_NS ''Concept''"

definition SKOS_prefLabel :: node where
  "SKOS_prefLabel = ns_term SKOS_NS ''prefLabel''"

definition DCAT_Catalog :: node where
  "DCAT_Catalog = ns_term DCAT_NS ''Catalog''"

definition DCAT_Dataset :: node where
  "DCAT_Dataset = ns_term DCAT_NS ''Dataset''"

definition DCAT_dataset :: node where
  "DCAT_dataset = ns_term DCAT_NS ''dataset''"

definition DCAT_theme :: node where
  "DCAT_theme = ns_term DCAT_NS ''theme''"

definition DCAT_keyword :: node where
  "DCAT_keyword = ns_term DCAT_NS ''keyword''"

definition DCTERMS_title :: node where
  "DCTERMS_title = ns_term DCTERMS_NS ''title''"

definition DCTERMS_description :: node where
  "DCTERMS_description = ns_term DCTERMS_NS ''description''"

definition DCTERMS_issued :: node where
  "DCTERMS_issued = ns_term DCTERMS_NS ''issued''"

definition XSD_date :: string where
  "XSD_date = XSD_NS @ ''date''"

definition FIELD_Field :: node where
  "FIELD_Field = ns_term FIELD_NS ''Field''"

definition FIELD_fieldName :: node where
  "FIELD_fieldName = ns_term FIELD_NS ''fieldName''"

definition FIELD_fieldType :: node where
  "FIELD_fieldType = ns_term FIELD_NS ''fieldType''"

definition FIELD_fieldDescription :: node where
  "FIELD_fieldDescription = ns_term FIELD_NS ''fieldDescription''"

definition FIELD_hasField :: node where
  "FIELD_hasField = ns_term FIELD_NS ''hasField''"

definition FIELD_hasBusinessTerm :: node where
  "FIELD_hasBusinessTerm = ns_term FIELD_NS ''hasBusinessTerm''"

definition EX_hasForeignKeyTo :: node where
  "EX_hasForeignKeyTo = ns_term EX_NS ''hasForeignKeyTo''"

section \<open>The catalog object\<close>

text \<open>
  \<^verbatim>\<open>DCATCatalog\<close> holds the graph \<^verbatim>\<open>self.g\<close> and the catalog node \<^verbatim>\<open>self.catalog\<close>,
  which is \<^verbatim>\<open>URIRef(catalog_uri)\<close>. \<open>next_bnode\<close> is the supply of blank nodes.
\<close>

record DCATCatalog =
  g :: "triple list"
  catalog_uri :: string
  next_bnode :: nat

definition catalog :: "DCATCatalog \<Rightarrow> node" where
  "catalog s = URIRef (catalog_uri s)"

definition add :: "triple \<Rightarrow> DCATCatalog \<Rightarrow> DCATCatalog" where
  "add t s = s\<lparr>g := graph_add t (g s)\<rparr>"

definition remove :: "pattern \<Rightarrow> DCATCatalog \<Rightarrow> DCATCatalog" where
  "remove p s = s\<lparr>g := graph_remove p (g s)\<rparr>"

definition new_bnode :: "DCATCatalog \<Rightarrow> node \<times> DCATCatalog" where
  "new_bnode s = (BNode (next_bnode s), s\<lparr>next_bnode := Suc (next_bnode s)\<rparr>)"

definition plain :: "string \<Rightarrow> node" where
  "plain x = Literal x None None"

text \<open>
  The constructor writes the three catalog facts and then merges the triples of the
  downloaded ontology; the ontology's triples are a parameter. Blank nodes of the
  ontology lie below the supply.
\<close>

fun bnode_bound :: "node \<Rightarrow> nat" where
  "bnode_bound (BNode n) = Suc n"
| "bnode_bound _ = 0"

definition triple_bound :: "triple \<Rightarrow> nat" where
  "triple_bound t = max (bnode_bound (subj t)) (max (bnode_bound (pred t)) (bnode_bound (obj t)))"

definition init :: "string \<Rightarrow> triple list \<Rightarrow> DCATCatalog" where
  "init uri ontology =
     fold add ontology
       (add (URIRef uri, DCTERMS_description,
             plain ''This is the main data catalog for our organization'')
       (add (URIRef uri, DCTERMS_title, plain ''Main Data Catalog'')
       (add (URIRef uri, RDF_type, DCAT_Catalog)
          \<lparr>g = [], catalog_uri = uri, next_bnode = fold max (map triple_bound ontology) 0\<rparr>)))"

section \<open>Term resolution\<close>

datatype error = ValueError | ParseException

text \<open>
  \<^verbatim>\<open>is_business_term_in_fibo\<close> splices the label between double quotes into the query
  text, which \<^verbatim>\<open>prepareQuery\<close> parses and \<^verbatim>\<open>Graph.query\<close> evaluates. A label without
  a double quote, a backslash, a line break or a tab is the body of the quoted literal
  as it stands, and the query selects the \<^verbatim>\<open>rdfs:label\<close> triples whose object has that
  string value. (The parser replaces tabs by blanks in the whole text before it reads
  it, so a label with a tab is not compared as it stands.)
\<close>

definition splices :: "string \<Rightarrow> bool" where
  "splices term =
     list_all (\<lambda>c. c \<noteq> CHR 0x22 \<and> c \<noteq> CHR 0x5C \<and> c \<noteq> CHR 0x0A \<and> c \<noteq> CHR 0x0D
                 \<and> c \<noteq> CHR 0x09) term"

text \<open>
  The label made of one double quote gives the text \<^verbatim>\<open>"""\<close> where the literal is
  expected: no string of the grammar begins so and ends there, and the parser raises.
\<close>

definition unterminated :: "string \<Rightarrow> bool" where
  "unterminated term = (term = [CHR 0x22])"

text \<open>
  Any other label ends or escapes the literal, and the text is another one: the parser
  may reject it, or read a query out of it that looks at any triple of the graph. What
  rdflib makes of the text that such a label gives, on a given graph, is not fixed
  here: it is the parameter \<open>q\<close> of the resolver and of every function that calls it.
\<close>

type_synonym engine = "string \<Rightarrow> triple list \<Rightarrow> error + string list"

fun digits :: "nat \<Rightarrow> string" where
  "digits n = (if n < 10 then [char_of (48 + n)] else digits (n div 10) @ [char_of (48 + n mod 10)])"

text \<open>The text of a term, as the f-string over \<^verbatim>\<open>row.term\<close> renders it: Python's
  \<^verbatim>\<open>str\<close> of the term.\<close>

fun node_text :: "node \<Rightarrow> string" where
  "node_text (URIRef u) = u"
| "node_text (Literal l _ _) = l"
| "node_text (BNode n) = CHR ''N'' # digits n"

text \<open>SPARQL \<^verbatim>\<open>str\<close> as rdflib evaluates it: the plain literal of the term's text,
  for a literal its lexical form without language tag and datatype.\<close>

definition sparql_str :: "node \<Rightarrow> string" where
  "sparql_str n = node_text n"

definition label_rows :: "string \<Rightarrow> triple list \<Rightarrow> triple list" where
  "label_rows term G =
     filter (\<lambda>t. pred t = RDFS_label \<and> sparql_str (obj t) = term) G"

definition is_business_term_in_fibo :: "engine \<Rightarrow> DCATCatalog \<Rightarrow> string \<Rightarrow> error + string list" where
  "is_business_term_in_fibo q s term =
     (if splices term then Inr (map (\<lambda>t. node_text (subj t)) (label_rows term (g s)))
      else if unterminated term then Inl ParseException
      else q term (g s))"

section \<open>Datasets\<close>

definition dataset_node :: "string \<Rightarrow> node" where
  "dataset_node identifier = ns_term DATASET_NS identifier"

definition dataset_exists :: "DCATCatalog \<Rightarrow> string \<Rightarrow> bool" where
  "dataset_exists s identifier = ((dataset_node identifier, RDF_type, DCAT_Dataset) \<in> set (g s))"

text \<open>
  \<^verbatim>\<open>delete_dataset\<close>, statement by statement: the triples of every field node, the
  \<^verbatim>\<open>hasField\<close> edges, the \<^verbatim>\<open>seeAlso\<close> edges, the remaining triples of the dataset node,
  the catalog's edge to the dataset.
\<close>

definition remove_subject :: "node \<Rightarrow> DCATCatalog \<Rightarrow> DCATCatalog" where
  "remove_subject n s = fold (\<lambda>t. remove (exact t)) (graph_triples (Some n, None, None) (g s)) s"

definition delete_dataset :: "DCATCatalog \<Rightarrow> string \<Rightarrow> DCATCatalog" where
  "delete_dataset s identifier =
     (let dataset = dataset_node identifier;
          fields = graph_objects dataset FIELD_hasField (g s);
          s1 = fold remove_subject fields s;
          s2 = remove (Some dataset, Some FIELD_hasField, None) s1;
          business_terms = graph_objects dataset RDFS_seeAlso (g s2);
          s3 = fold (\<lambda>bt. remove (Some dataset, Some RDFS_seeAlso, Some bt)) business_terms s2;
          s4 = remove_subject dataset s3
      in remove (Some (catalog s), Some DCAT_dataset, Some dataset) s4)"

text \<open>Python truthiness of an optional string or list: neither \<^verbatim>\<open>None\<close> nor empty.\<close>

definition truthy :: "'a list option \<Rightarrow> bool" where
  "truthy x = (case x of None \<Rightarrow> False | Some v \<Rightarrow> v \<noteq> [])"

text \<open>A field is a dict with the keys \<^verbatim>\<open>name\<close> and \<^verbatim>\<open>type\<close> and, optionally,
  \<^verbatim>\<open>description\<close> and \<^verbatim>\<open>business_terms\<close>.\<close>

record field_entry =
  field_name :: string
  field_type :: string
  field_description :: "string option"
  field_business_terms :: "string list option"

text \<open>Lines 192 to 194: type, title and description of the dataset node.\<close>

definition write_header :: "node \<Rightarrow> string \<Rightarrow> string \<Rightarrow> DCATCatalog \<Rightarrow> DCATCatalog" where
  "write_header dataset title description s =
     add (dataset, DCTERMS_description, plain description)
       (add (dataset, DCTERMS_title, plain title)
         (add (dataset, RDF_type, DCAT_Dataset) s))"

text \<open>Lines 196 to 200: the theme, a fresh blank node.\<close>

definition write_theme :: "node \<Rightarrow> string option \<Rightarrow> DCATCatalog \<Rightarrow> DCATCatalog" where
  "write_theme dataset theme s =
     (if truthy theme then
        (let (theme_node, s1) = new_bnode s
         in add (dataset, DCAT_theme, theme_node)
              (add (theme_node, SKOS_prefLabel, plain (the theme))
                (add (theme_node, RDF_type, SKOS_Concept) s1)))
      else s)"

text \<open>Lines 202 to 204: one \<^verbatim>\<open>add\<close> for each keyword of the sequence.\<close>

definition write_keywords :: "node \<Rightarrow> string list option \<Rightarrow> DCATCatalog \<Rightarrow> DCATCatalog" where
  "write_keywords dataset keywords s =
     (if truthy keywords then
        fold (\<lambda>keyword. add (dataset, DCAT_keyword, plain keyword)) (the keywords) s
      else s)"

text \<open>Lines 206 and 207: the issue date, a literal of datatype \<^verbatim>\<open>xsd:date\<close>. rdflib
  rewrites the lexical form of a date that it can read; the model keeps the string as
  given, and no statement below is about the stored date.\<close>

definition write_issued :: "node \<Rightarrow> string option \<Rightarrow> DCATCatalog \<Rightarrow> DCATCatalog" where
  "write_issued dataset issued s =
     (if truthy issued then add (dataset, DCTERMS_issued, Literal (the issued) None (Some XSD_date)) s
      else s)"

text \<open>Lines 209 to 213: the dataset's own business terms.\<close>

definition link_term :: "node \<Rightarrow> string \<Rightarrow> DCATCatalog \<Rightarrow> DCATCatalog" where
  "link_term dataset term s =
     (let term_uri = ns_term FIBO_NS term
      in add (term_uri, RDF_type, OWL_Class) (add (dataset, RDFS_seeAlso, term_uri) s))"

definition write_business_terms :: "node \<Rightarrow> string list option \<Rightarrow> DCATCatalog \<Rightarrow> DCATCatalog" where
  "write_business_terms dataset business_terms s =
     (if truthy business_terms then fold (link_term dataset) (the business_terms) s else s)"

text \<open>
  Lines 226 to 235: the business terms of one field. An exception of the resolver ends
  the loop and leaves the graph as it is at that moment.
\<close>

fun link_field_terms :: "engine \<Rightarrow> node \<Rightarrow> string list \<Rightarrow> DCATCatalog \<Rightarrow> error option \<times> DCATCatalog" where
  "link_field_terms q field_node [] s = (None, s)"
| "link_field_terms q field_node (bt # bts) s =
     (case is_business_term_in_fibo q s bt of
        Inl e \<Rightarrow> (Some e, s)
      | Inr found \<Rightarrow>
          (if 0 < length found then
             (let bt_uri = ns_term FIBO_NS (found ! 0)
              in link_field_terms q field_node bts
                   (add (bt_uri, RDF_type, OWL_Class)
                     (add (field_node, FIELD_hasBusinessTerm, bt_uri) s)))
           else link_field_terms q field_node bts s))"

text \<open>Lines 217 to 238: one field. The \<^verbatim>\<open>hasField\<close> edge is the last write.\<close>

definition write_field_attrs :: "node \<Rightarrow> field_entry \<Rightarrow> DCATCatalog \<Rightarrow> DCATCatalog" where
  "write_field_attrs field_node f s =
     (let s1 = add (field_node, FIELD_fieldType, plain (field_type f))
                 (add (field_node, FIELD_fieldName, plain (field_name f))
                   (add (field_node, RDF_type, FIELD_Field) s))
      in case field_description f of
           None \<Rightarrow> s1
         | Some d \<Rightarrow> add (field_node, FIELD_fieldDescription, plain d) s1)"

definition add_field :: "engine \<Rightarrow> node \<Rightarrow> field_entry \<Rightarrow> DCATCatalog \<Rightarrow> error option \<times> DCATCatalog" where
  "add_field q dataset f s =
     (let (field_node, s1) = new_bnode s;
          s2 = write_field_attrs field_node f s1;
          (e, s3) = (case field_business_terms f of
                       None \<Rightarrow> (None, s2)
                     | Some bts \<Rightarrow> link_field_terms q field_node bts s2)
      in case e of
           Some x \<Rightarrow> (Some x, s3)
         | None \<Rightarrow> (None, add (dataset, FIELD_hasField, field_node) s3))"

fun add_fields :: "engine \<Rightarrow> node \<Rightarrow> field_entry list \<Rightarrow> DCATCatalog \<Rightarrow> error option \<times> DCATCatalog" where
  "add_fields q dataset [] s = (None, s)"
| "add_fields q dataset (f # fs) s =
     (case add_field q dataset f s of
        (Some x, s1) \<Rightarrow> (Some x, s1)
      | (None, s1) \<Rightarrow> add_fields q dataset fs s1)"

definition write_fields :: "engine \<Rightarrow> node \<Rightarrow> field_entry list option \<Rightarrow> DCATCatalog \<Rightarrow> error option \<times> DCATCatalog" where
  "write_fields q dataset field_list s =
     (if truthy field_list then add_fields q dataset (the field_list) s else (None, s))"

text \<open>Lines 191 to 241, everything after the removal of the previous version.\<close>

definition write_dataset ::
  "engine \<Rightarrow> string \<Rightarrow> string \<Rightarrow> string \<Rightarrow> string option \<Rightarrow> string list option \<Rightarrow> string option \<Rightarrow>
   string list option \<Rightarrow> field_entry list option \<Rightarrow> DCATCatalog \<Rightarrow> (error + bool) \<times> DCATCatalog" where
  "write_dataset q identifier title description theme keywords issued business_terms field_list s =
     (let dataset = dataset_node identifier;
          s1 = write_header dataset title description s;
          s2 = write_theme dataset theme s1;
          s3 = write_keywords dataset keywords s2;
          s4 = write_issued dataset issued s3;
          s5 = write_business_terms dataset business_terms s4
      in case write_fields q dataset field_list s5 of
           (Some x, s6) \<Rightarrow> (Inl x, s6)
         | (None, s6) \<Rightarrow> (Inr True, add (catalog s6, DCAT_dataset, dataset) s6))"

text \<open>
  \<^verbatim>\<open>add_dataset\<close>: the result is \<^verbatim>\<open>True\<close>, or the exception that ended the call,
  together with the catalog as the call leaves it.
\<close>

definition add_dataset ::
  "engine \<Rightarrow> DCATCatalog \<Rightarrow> string \<Rightarrow> string \<Rightarrow> string \<Rightarrow> string option \<Rightarrow> string list option \<Rightarrow>
   string option \<Rightarrow> string list option \<Rightarrow> field_entry list option \<Rightarrow> (error + bool) \<times> DCATCatalog" where
  "add_dataset q s identifier title description theme keywords issued business_terms field_list =
     write_dataset q identifier title description theme keywords issued business_terms field_list
       (if dataset_exists s identifier then delete_dataset s identifier else s)"

definition add_foreign_key_relationship ::
  "DCATCatalog \<Rightarrow> string \<Rightarrow> string \<Rightarrow> string option \<Rightarrow> (error + bool) \<times> DCATCatalog" where
  "add_foreign_key_relationship s from_dataset to_dataset description =
     (if \<not> dataset_exists s from_dataset \<or> \<not> dataset_exists s to_dataset then (Inl ValueError, s)
      else
        (let from_uri = dataset_node from_dataset;
             to_uri = dataset_node to_dataset;
             s1 = add (from_uri, EX_hasForeignKeyTo, to_uri) s;
             s2 = (if truthy description then add (from_uri, RDFS_comment, plain (the description)) s1
                   else s1)
         in (Inr True, s2)))"

text \<open>
  \<^verbatim>\<open>serialize_catalog\<close>: the serializer of the graph and the JSON reader belong to the
  libraries and are parameters. The call passes the constants \<^verbatim>\<open>"json-ld"\<close> and
  \<^verbatim>\<open>2\<close>, whatever the arguments are.
\<close>

definition serialize_catalog ::
  "(triple list \<Rightarrow> string \<Rightarrow> nat \<Rightarrow> string) \<Rightarrow> (string \<Rightarrow> 'doc) \<Rightarrow>
   DCATCatalog \<Rightarrow> 'format \<Rightarrow> 'indent \<Rightarrow> 'doc" where
  "serialize_catalog graph_serialize json_loads s format indent =
     (let json_ld = graph_serialize (g s) ''json-ld'' 2;
          json_ld_dict = json_loads json_ld
      in json_ld_dict)"

section \<open>Notions used in the statements\<close>

text \<open>The field nodes of a dataset are the objects of its \<^verbatim>\<open>hasField\<close> edges.\<close>

definition field_nodes :: "DCATCatalog \<Rightarrow> string \<Rightarrow> node list" where
  "field_nodes s identifier = graph_objects (dataset_node identifier) FIELD_hasField (g s)"

fun is_bnode :: "node \<Rightarrow> bool" where
  "is_bnode (BNode _) = True"
| "is_bnode _ = False"

text \<open>Every field node of the dataset is a blank node, as \<^verbatim>\<open>add_dataset\<close> makes them.\<close>

definition anonymous_fields :: "DCATCatalog \<Rightarrow> string \<Rightarrow> bool" where
  "anonymous_fields s identifier = list_all is_bnode (field_nodes s identifier)"

definition catalog_edge :: "DCATCatalog \<Rightarrow> string \<Rightarrow> triple" where
  "catalog_edge s identifier = (catalog s, DCAT_dataset, dataset_node identifier)"

section \<open>What a registration writes\<close>

text \<open>
  The triples that the writing part of \<^verbatim>\<open>add_dataset\<close> adds have a common shape: none
  is an \<^verbatim>\<open>rdfs:label\<close> triple, their blank nodes come from the supply at or after
  \<open>lo\<close> and below \<open>hi\<close>, and a \<^verbatim>\<open>hasField\<close> edge points at such a blank node.
\<close>

definition shape :: "nat \<Rightarrow> nat \<Rightarrow> triple \<Rightarrow> bool" where
  "shape lo hi x =
     (pred x \<noteq> RDFS_label \<and> triple_bound x \<le> hi
      \<and> (case subj x of BNode n \<Rightarrow> lo \<le> n | _ \<Rightarrow> True)
      \<and> (pred x = FIELD_hasField \<longrightarrow> (case obj x of BNode n \<Rightarrow> lo \<le> n | _ \<Rightarrow> False)))"

definition extends :: "nat \<Rightarrow> DCATCatalog \<Rightarrow> DCATCatalog \<Rightarrow> bool" where
  "extends lo s s' =
     (catalog_uri s' = catalog_uri s \<and> next_bnode s \<le> next_bnode s'
      \<and> (\<exists>ws. g s' = fold graph_add ws (g s) \<and> list_all (shape lo (next_bnode s')) ws))"


section \<open>Registering twice\<close>


text \<open>Renaming of blank nodes: those from \<open>lo\<close> on move up by \<open>k\<close>.\<close>

fun shift_node :: "nat \<Rightarrow> nat \<Rightarrow> node \<Rightarrow> node" where
  "shift_node lo k (BNode n) = BNode (if lo \<le> n then n + k else n)"
| "shift_node lo k (URIRef u) = URIRef u"
| "shift_node lo k (Literal l a b) = Literal l a b"

definition shift_triple :: "nat \<Rightarrow> nat \<Rightarrow> triple \<Rightarrow> triple" where
  "shift_triple lo k t = (shift_node lo k (subj t), shift_node lo k (pred t), shift_node lo k (obj t))"


text \<open>Every business-term label of every field splices.\<close>

definition field_splices :: "field_entry \<Rightarrow> bool" where
  "field_splices f = (case field_business_terms f of None \<Rightarrow> True | Some bts \<Rightarrow> list_all splices bts)"

definition labels_splice :: "field_entry list option \<Rightarrow> bool" where
  "labels_splice field_list = (case field_list of None \<Rightarrow> True | Some fs \<Rightarrow> list_all field_splices fs)"






section \<open>A label that does not splice\<close>

text \<open>
  The label \<^verbatim>\<open>" || NOT EXISTS { ?z a owl:Class } || "" = "x\<close> turns the filter into
  \<^verbatim>\<open>FILTER (str(?label) = "" || NOT EXISTS { ?z a owl:Class } || "" = "x")\<close>,
  a filter of SPARQL 1.1 (the prefix \<^verbatim>\<open>owl\<close> is among the bindings of the query): a
  label triple passes it when the label is empty or when nothing in the graph is typed
  as \<^verbatim>\<open>owl:Class\<close>. \<open>probe_engine\<close> answers this one label so, by the meaning of the
  text, and raises on every other label that is handed to it. It is the engine of the
  sample stores below; of their labels only this one reaches it.
\<close>

definition probe_label :: string where
  "probe_label =
     [CHR 0x22] @ '' || NOT EXISTS { ?z a owl:Class } || '' @ [CHR 0x22, CHR 0x22] @ '' = ''
       @ [CHR 0x22] @ ''x''"

definition has_class :: "triple list \<Rightarrow> bool" where
  "has_class G = list_ex (\<lambda>t. pred t = RDF_type \<and> obj t = OWL_Class) G"

definition probe_engine :: engine where
  "probe_engine term G =
     (if term = probe_label then
        Inr (map (\<lambda>t. node_text (subj t))
               (filter (\<lambda>t. pred t = RDFS_label \<and> (sparql_str (obj t) = [] \<or> \<not> has_class G)) G))
      else Inl ParseException)"

section \<open>A small catalog\<close>

text \<open>
  The scenario of the specification: an ontology with one term labelled
  \<^verbatim>\<open>Legal Entity\<close>, a dataset \<^verbatim>\<open>orders\<close> with the fields \<^verbatim>\<open>order_id\<close> and \<^verbatim>\<open>customer\<close>
  registered in it.
\<close>

definition T1 :: string where
  "T1 = ''https://spec.edmcouncil.org/fibo/ontology/BE/LegalEntities/LegalPersons/LegalEntity''"

definition example_catalog :: DCATCatalog where
  "example_catalog =
     init ''http://data.example.com/catalog/main-catalog''
       [(URIRef T1, RDFS_label, plain ''Legal Entity''), (URIRef T1, RDF_type, OWL_Class)]"

definition example_fields :: "field_entry list" where
  "example_fields =
     [\<lparr>field_name = ''order_id'', field_type = ''string'',
       field_description = None, field_business_terms = None\<rparr>,
      \<lparr>field_name = ''customer'', field_type = ''string'',
       field_description = None, field_business_terms = Some [''Legal Entity'']\<rparr>]"

definition orders_result :: "(error + bool) \<times> DCATCatalog" where
  "orders_result =
     add_dataset probe_engine example_catalog ''orders'' ''Orders'' ''Order records''
       None None None None (Some example_fields)"

definition store_orders :: DCATCatalog where
  "store_orders = snd orders_result"

text \<open>An ontology whose only triple is the label of a node, which has no type.\<close>

definition labelled_catalog :: DCATCatalog where
  "labelled_catalog =
     init ''http://data.example.com/catalog/main-catalog''
       [(URIRef ''http://example.org/notes/n1'', RDFS_label, plain ''Legal Entity'')]"

text \<open>A catalog with an empty ontology, and registrations in it.\<close>

definition empty_catalog :: DCATCatalog where
  "empty_catalog = init ''http://data.example.com/catalog/main-catalog'' []"

definition store_a :: DCATCatalog where
  "store_a = snd (add_dataset probe_engine empty_catalog ''a'' ''A'' ''first'' None None None None None)"

definition store_ab :: DCATCatalog where
  "store_ab = snd (add_dataset probe_engine store_a ''b'' ''B'' ''second'' None None None None None)"

definition store_ab_linked :: DCATCatalog where
  "store_ab_linked = snd (add_foreign_key_relationship store_ab ''a'' ''b'' None)"

text \<open>A store written out: the dataset \<^verbatim>\<open>a\<close> with one field, the dataset \<^verbatim>\<open>b\<close> with
  a foreign key to \<^verbatim>\<open>a\<close>, and a business term of the field.\<close>

definition small_store :: DCATCatalog where
  "small_store =
     \<lparr>g = [(dataset_node ''a'', RDF_type, DCAT_Dataset),
           (BNode 0, RDF_type, FIELD_Field),
           (BNode 0, FIELD_hasBusinessTerm, ns_term FIBO_NS ''T''),
           (ns_term FIBO_NS ''T'', RDF_type, OWL_Class),
           (dataset_node ''a'', FIELD_hasField, BNode 0),
           (dataset_node ''b'', RDF_type, DCAT_Dataset),
           (dataset_node ''b'', EX_hasForeignKeyTo, dataset_node ''a'')],
      catalog_uri = ''http://data.example.com/catalog/main-catalog'',
      next_bnode = 1\<rparr>"

text \<open>The dataset \<^verbatim>\<open>b\<close> deleted again: the foreign key from \<^verbatim>\<open>a\<close> points nowhere.\<close>

definition dangling_store :: DCATCatalog where
  "dangling_store = delete_dataset store_ab_linked ''b''"

text \<open>A dataset with the same keyword twice.\<close>

definition keyword_store :: DCATCatalog where
  "keyword_store =
     snd (add_dataset probe_engine empty_catalog ''d'' ''D'' ''data'' None (Some [''k'', ''k'']) None None None)"

text \<open>A dataset with a theme, registered once and registered twice.\<close>

definition themed_once :: DCATCatalog where
  "themed_once =
     snd (add_dataset probe_engine empty_catalog ''d'' ''D'' ''data'' (Some ''sales'') None None None None)"

definition themed_twice :: DCATCatalog where
  "themed_twice =
     snd (add_dataset probe_engine themed_once ''d'' ''D'' ''data'' (Some ''sales'') None None None None)"




section \<open>The store as a set\<close>

lemma set_graph_add: "set (graph_add t G) = insert t (set G)"
  by (auto simp: graph_add_def)

lemma distinct_graph_add: "distinct G \<Longrightarrow> distinct (graph_add t G)"
  by (simp add: graph_add_def)

lemma matches_exact: "matches (exact t) u \<longleftrightarrow> u = t"
  by (cases t; cases u) (auto simp: matches_def exact_def fits_def subj_def pred_def obj_def)

lemma matches_subject: "matches (Some n, None, None) t \<longleftrightarrow> subj t = n"
  by (auto simp: matches_def fits_def)

lemma matches_subject_pred: "matches (Some n, Some p, None) t \<longleftrightarrow> subj t = n \<and> pred t = p"
  by (auto simp: matches_def fits_def)

lemma matches_triple: "matches (Some a, Some b, Some c) t \<longleftrightarrow> t = (a, b, c)"
  by (cases t) (auto simp: matches_def fits_def subj_def pred_def obj_def)

lemma add_fields_of [simp]:
  "g (add t s) = graph_add t (g s)"
  "catalog_uri (add t s) = catalog_uri s"
  "next_bnode (add t s) = next_bnode s"
  "catalog (add t s) = catalog s"
  by (simp_all add: add_def catalog_def)

lemma remove_fields_of [simp]:
  "g (remove p s) = graph_remove p (g s)"
  "catalog_uri (remove p s) = catalog_uri s"
  "next_bnode (remove p s) = next_bnode s"
  "catalog (remove p s) = catalog s"
  by (simp_all add: remove_def catalog_def)

lemma fold_remove_exact:
  "g (fold (\<lambda>t. remove (exact t)) ts s) = filter (\<lambda>u. u \<notin> set ts) (g s)
   \<and> catalog_uri (fold (\<lambda>t. remove (exact t)) ts s) = catalog_uri s
   \<and> next_bnode (fold (\<lambda>t. remove (exact t)) ts s) = next_bnode s"
proof (induction ts arbitrary: s)
  case Nil
  show ?case by simp
next
  case (Cons t ts)
  have "filter (\<lambda>u. u \<notin> set ts) (graph_remove (exact t) (g s)) = filter (\<lambda>u. u \<notin> set (t # ts)) (g s)"
    by (auto simp: graph_remove_def matches_exact intro: filter_cong)
  with Cons.IH [of "remove (exact t) s"] show ?case by simp
qed

lemma remove_subject_fields_of [simp]:
  "g (remove_subject n s) = filter (\<lambda>t. subj t \<noteq> n) (g s)"
  "catalog_uri (remove_subject n s) = catalog_uri s"
  "next_bnode (remove_subject n s) = next_bnode s"
proof -
  have "filter (\<lambda>u. u \<notin> set (graph_triples (Some n, None, None) (g s))) (g s)
        = filter (\<lambda>t. subj t \<noteq> n) (g s)"
    by (auto simp: graph_triples_def matches_subject intro: filter_cong)
  then show "g (remove_subject n s) = filter (\<lambda>t. subj t \<noteq> n) (g s)"
    by (simp add: remove_subject_def fold_remove_exact)
qed (simp_all add: remove_subject_def fold_remove_exact)

lemma fold_remove_subject:
  "g (fold remove_subject ns s) = filter (\<lambda>t. subj t \<notin> set ns) (g s)
   \<and> catalog_uri (fold remove_subject ns s) = catalog_uri s
   \<and> next_bnode (fold remove_subject ns s) = next_bnode s"
proof (induction ns arbitrary: s)
  case Nil
  show ?case by simp
next
  case (Cons n ns)
  from Cons.IH [of "remove_subject n s"] show ?case
    by (auto intro: filter_cong)
qed

lemmas vocabulary =
  RDF_type_def RDFS_label_def RDFS_seeAlso_def RDFS_comment_def OWL_Class_def SKOS_Concept_def
  SKOS_prefLabel_def DCAT_Catalog_def DCAT_Dataset_def DCAT_dataset_def DCAT_theme_def
  DCAT_keyword_def DCTERMS_title_def DCTERMS_description_def DCTERMS_issued_def
  FIELD_Field_def FIELD_fieldName_def FIELD_fieldType_def FIELD_fieldDescription_def
  FIELD_hasField_def FIELD_hasBusinessTerm_def EX_hasForeignKeyTo_def

lemmas namespaces =
  RDF_NS_def RDFS_NS_def OWL_NS_def SKOS_NS_def DCAT_NS_def DCTERMS_NS_def XSD_NS_def
  DATASET_NS_def FIELD_NS_def FIBO_NS_def EX_NS_def

lemma not_bnode [simp]:
  "\<not> is_bnode (ns_term a b)" "\<not> is_bnode (dataset_node i)" "\<not> is_bnode (plain x)"
  "\<not> is_bnode (catalog s)" "\<not> is_bnode DCAT_Dataset" "\<not> is_bnode OWL_Class"
  "\<not> is_bnode SKOS_Concept" "\<not> is_bnode FIELD_Field"
  by (simp_all add: ns_term_def dataset_node_def plain_def catalog_def vocabulary)

section \<open>Deleting a dataset\<close>

lemma fold_remove_edge:
  "g (fold (\<lambda>b. remove (Some d, Some p, Some b)) bs s)
     = filter (\<lambda>t. \<not> (subj t = d \<and> pred t = p \<and> obj t \<in> set bs)) (g s)
   \<and> catalog_uri (fold (\<lambda>b. remove (Some d, Some p, Some b)) bs s) = catalog_uri s
   \<and> next_bnode (fold (\<lambda>b. remove (Some d, Some p, Some b)) bs s) = next_bnode s"
proof (induction bs arbitrary: s)
  case Nil
  show ?case by simp
next
  case (Cons b bs)
  have "filter (\<lambda>t. \<not> (subj t = d \<and> pred t = p \<and> obj t \<in> set bs)) (graph_remove (Some d, Some p, Some b) (g s))
        = filter (\<lambda>t. \<not> (subj t = d \<and> pred t = p \<and> obj t \<in> set (b # bs))) (g s)"
    by (auto simp: graph_remove_def matches_triple subj_def pred_def obj_def intro: filter_cong)
  with Cons.IH [of "remove (Some d, Some p, Some b) s"] show ?case by simp
qed

lemma g_delete_dataset:
  "g (delete_dataset s i)
     = filter (\<lambda>t. subj t \<noteq> dataset_node i \<and> subj t \<notin> set (field_nodes s i) \<and> t \<noteq> catalog_edge s i) (g s)"
  unfolding delete_dataset_def Let_def field_nodes_def catalog_edge_def
  by (simp add: fold_remove_subject fold_remove_edge graph_remove_def matches_triple
        matches_subject_pred catalog_def)
     (auto intro: filter_cong)

lemma delete_dataset_other [simp]:
  "catalog_uri (delete_dataset s i) = catalog_uri s"
  "next_bnode (delete_dataset s i) = next_bnode s"
  "catalog (delete_dataset s i) = catalog s"
  unfolding delete_dataset_def Let_def
  by (simp_all add: fold_remove_subject fold_remove_edge catalog_def)


lemma dataset_node_inj: "dataset_node i = dataset_node j \<longleftrightarrow> i = j"
  by (simp add: dataset_node_def ns_term_def)

lemma fibo_not_dataset: "ns_term FIBO_NS l \<noteq> dataset_node i"
  by (simp add: dataset_node_def ns_term_def FIBO_NS_def DATASET_NS_def)

lemma anonymous_fieldsD: "anonymous_fields s i \<Longrightarrow> n \<in> set (field_nodes s i) \<Longrightarrow> is_bnode n"
  by (simp add: anonymous_fields_def list_all_iff)

text \<open>
  Claim C10. \<^verbatim>\<open>delete_dataset\<close> removes the triples whose subject is the dataset node or
  one of its field nodes, and the catalog's edge to the dataset, and nothing else. An
  edge \<^verbatim>\<open>hasForeignKeyTo\<close> from another dataset to the deleted one stays in the store,
  although its target is no longer a dataset.
\<close>

theorem delete_dataset_frame:
  "set (g (delete_dataset s i))
     = {t \<in> set (g s). subj t \<noteq> dataset_node i \<and> subj t \<notin> set (field_nodes s i) \<and> t \<noteq> catalog_edge s i}
   \<and> (anonymous_fields s i \<and> j \<noteq> i \<and> (dataset_node j, EX_hasForeignKeyTo, dataset_node i) \<in> set (g s)
       \<longrightarrow> (dataset_node j, EX_hasForeignKeyTo, dataset_node i) \<in> set (g (delete_dataset s i))
           \<and> \<not> dataset_exists (delete_dataset s i) i)"
proof -
  have a: "set (g (delete_dataset s i))
     = {t \<in> set (g s). subj t \<noteq> dataset_node i \<and> subj t \<notin> set (field_nodes s i) \<and> t \<noteq> catalog_edge s i}"
    by (auto simp: g_delete_dataset)
  have b: "\<not> dataset_exists (delete_dataset s i) i"
    by (simp add: dataset_exists_def a subj_def)
  have c: "(dataset_node j, EX_hasForeignKeyTo, dataset_node i) \<in> set (g (delete_dataset s i))"
    if "anonymous_fields s i" "j \<noteq> i" "(dataset_node j, EX_hasForeignKeyTo, dataset_node i) \<in> set (g s)"
  proof -
    have "dataset_node j \<notin> set (field_nodes s i)"
      using anonymous_fieldsD [OF that(1)] not_bnode(2) by blast
    moreover have "EX_hasForeignKeyTo \<noteq> DCAT_dataset"
      by (simp add: EX_hasForeignKeyTo_def DCAT_dataset_def ns_term_def EX_NS_def DCAT_NS_def)
    ultimately show ?thesis using that
      by (simp add: a subj_def dataset_node_inj catalog_edge_def)
  qed
  from a b c show ?thesis by blast
qed

text \<open>
  Claim C5. After \<^verbatim>\<open>delete_dataset\<close> no triple has the dataset node or one of its field
  nodes as subject, so the reference edges \<^verbatim>\<open>seeAlso\<close> and \<^verbatim>\<open>hasBusinessTerm\<close> are
  gone, and every triple about a business term node, a node of the ontology namespace,
  is still in the store, its typing as \<^verbatim>\<open>owl:Class\<close> among them.
\<close>

theorem delete_dataset_keeps_terms:
  "anonymous_fields s i \<and> catalog s \<noteq> ns_term FIBO_NS l \<longrightarrow>
     (\<forall>t\<in>set (g (delete_dataset s i)). subj t \<noteq> dataset_node i \<and> subj t \<notin> set (field_nodes s i))
   \<and> (\<forall>t\<in>set (g s). subj t = ns_term FIBO_NS l \<longrightarrow> t \<in> set (g (delete_dataset s i)))"
proof (intro impI conjI ballI)
  fix t assume "t \<in> set (g (delete_dataset s i))"
  then show "subj t \<noteq> dataset_node i" "subj t \<notin> set (field_nodes s i)"
    by (simp_all add: g_delete_dataset)
next
  fix t
  assume h: "anonymous_fields s i \<and> catalog s \<noteq> ns_term FIBO_NS l"
    and t: "t \<in> set (g s)" "subj t = ns_term FIBO_NS l"
  have "ns_term FIBO_NS l \<notin> set (field_nodes s i)"
    using anonymous_fieldsD h not_bnode(1) by blast
  moreover have "t \<noteq> catalog_edge s i"
    using h t(2) by (auto simp: catalog_edge_def subj_def)
  ultimately show "t \<in> set (g (delete_dataset s i))"
    using t by (simp add: g_delete_dataset fibo_not_dataset)
qed

text \<open>
  Claim C9. \<^verbatim>\<open>serialize_catalog\<close> ignores its arguments \<^verbatim>\<open>format\<close> and \<^verbatim>\<open>indent\<close>:
  the result is the parsed JSON-LD serialization of the whole graph, the one the default
  arguments give.
\<close>

theorem serialize_catalog_ignores_arguments:
  "serialize_catalog graph_serialize json_loads s fmt indent
     = json_loads (graph_serialize (g s) ''json-ld'' 2)
   \<and> serialize_catalog graph_serialize json_loads s fmt indent
     = serialize_catalog graph_serialize json_loads s ''json-ld'' (2 :: nat)"
  by (simp add: serialize_catalog_def)

section \<open>The writes of a registration\<close>

lemma shape_mono: "shape lo hi x \<Longrightarrow> hi \<le> hi' \<Longrightarrow> shape lo hi' x"
  by (auto simp: shape_def)

lemma extends_refl: "extends lo s s"
  unfolding extends_def by (intro conjI exI [of _ "[]"]) simp_all

lemma extends_trans:
  assumes "extends lo s s'" "extends lo s' s''"
  shows "extends lo s s''"
proof -
  from assms(1) obtain ws where ws: "g s' = fold graph_add ws (g s)"
    "list_all (shape lo (next_bnode s')) ws" by (auto simp: extends_def)
  from assms(2) obtain vs where vs: "g s'' = fold graph_add vs (g s')"
    "list_all (shape lo (next_bnode s'')) vs" by (auto simp: extends_def)
  have le: "next_bnode s' \<le> next_bnode s''" using assms(2) by (simp add: extends_def)
  have "g s'' = fold graph_add (ws @ vs) (g s)" using ws(1) vs(1) by simp
  moreover have "list_all (shape lo (next_bnode s'')) (ws @ vs)"
    using ws(2) vs(2) le by (auto simp: list_all_iff intro: shape_mono)
  ultimately show ?thesis using assms unfolding extends_def by (intro conjI exI [of _ "ws @ vs"]) auto
qed

lemma extends_add: "shape lo (next_bnode s) x \<Longrightarrow> extends lo s (add x s)"
  unfolding extends_def by (intro conjI exI [of _ "[x]"]) simp_all

lemma extends_add_trans:
  "extends lo s s' \<Longrightarrow> shape lo (next_bnode s') x \<Longrightarrow> extends lo s (add x s')"
  by (blast intro: extends_trans extends_add)

lemma extends_supply: "extends lo s (s\<lparr>next_bnode := Suc (next_bnode s)\<rparr>)"
  unfolding extends_def by (intro conjI exI [of _ "[]"]) simp_all

lemma shape_named:
  "\<not> is_bnode a \<Longrightarrow> p \<in> {RDF_type, DCTERMS_title, DCTERMS_description, DCAT_keyword,
      DCTERMS_issued, RDFS_seeAlso, DCAT_dataset} \<Longrightarrow> \<not> is_bnode c \<Longrightarrow> shape lo hi (a, p, c)"
  by (cases a; cases c)
     (auto simp: shape_def subj_def pred_def obj_def triple_bound_def vocabulary ns_term_def namespaces)

lemma shape_anonymous:
  "lo \<le> n \<Longrightarrow> n < hi \<Longrightarrow> p \<in> {RDF_type, SKOS_prefLabel, FIELD_fieldName, FIELD_fieldType,
      FIELD_fieldDescription, FIELD_hasBusinessTerm} \<Longrightarrow> \<not> is_bnode c \<Longrightarrow> shape lo hi (BNode n, p, c)"
  by (cases c)
     (auto simp: shape_def subj_def pred_def obj_def triple_bound_def vocabulary ns_term_def namespaces)

lemma shape_edge:
  "\<not> is_bnode a \<Longrightarrow> lo \<le> n \<Longrightarrow> n < hi \<Longrightarrow> p \<in> {DCAT_theme, FIELD_hasField} \<Longrightarrow> shape lo hi (a, p, BNode n)"
  by (cases a)
     (auto simp: shape_def subj_def pred_def obj_def triple_bound_def vocabulary ns_term_def namespaces)

lemma extends_write_header: "extends lo s (write_header (dataset_node i) title d s)"
  unfolding write_header_def
  by (intro extends_add_trans extends_refl shape_named) simp_all

lemma extends_write_theme:
  assumes "lo \<le> next_bnode s"
  shows "extends lo s (write_theme (dataset_node i) theme s)"
proof (cases "truthy theme")
  case False
  then show ?thesis by (simp add: write_theme_def extends_refl)
next
  case True
  let ?n = "next_bnode s"
  let ?s1 = "s\<lparr>next_bnode := Suc ?n\<rparr>"
  have "extends lo s (add (dataset_node i, DCAT_theme, BNode ?n)
          (add (BNode ?n, SKOS_prefLabel, plain (the theme))
            (add (BNode ?n, RDF_type, SKOS_Concept) ?s1)))"
    using assms
    by (intro extends_add_trans [OF _ shape_edge] extends_add_trans [OF _ shape_anonymous]
          extends_supply) simp_all
  then show ?thesis using True by (simp add: write_theme_def new_bnode_def)
qed

lemma extends_fold_add:
  "(\<And>k. shape lo (next_bnode s) (f k)) \<Longrightarrow> extends lo s (fold (\<lambda>k. add (f k)) ks s)"
proof (induction ks arbitrary: s)
  case Nil
  show ?case by (simp add: extends_refl)
next
  case (Cons k ks)
  have "extends lo (add (f k) s) (fold (\<lambda>k. add (f k)) ks (add (f k) s))"
    using Cons.prems by (intro Cons.IH) simp
  with extends_add [OF Cons.prems [of k]] show ?case
    by (auto intro: extends_trans)
qed

lemma extends_write_keywords: "extends lo s (write_keywords (dataset_node i) keywords s)"
  unfolding write_keywords_def
  by (auto intro!: extends_fold_add extends_refl shape_named)

lemma extends_write_issued: "extends lo s (write_issued (dataset_node i) issued s)"
  unfolding write_issued_def
  by (auto intro!: extends_add extends_refl shape_named)

lemma extends_link_term: "extends lo s (link_term (dataset_node i) term s)"
  unfolding link_term_def Let_def
  by (intro extends_add_trans extends_refl shape_named) simp_all

lemma extends_fold:
  "(\<And>k s. extends lo s (f k s)) \<Longrightarrow> extends lo s (fold f ks s)"
  by (induction ks arbitrary: s) (auto intro: extends_refl extends_trans)

lemma extends_write_business_terms:
  "extends lo s (write_business_terms (dataset_node i) business_terms s)"
  unfolding write_business_terms_def
  by (auto intro!: extends_fold extends_link_term extends_refl)

lemma extends_link_field_terms:
  "lo \<le> n \<Longrightarrow> n < next_bnode s \<Longrightarrow> extends lo s (snd (link_field_terms q (BNode n) bts s))"
proof (induction bts arbitrary: s)
  case Nil
  show ?case by (simp add: extends_refl)
next
  case (Cons bt bts)
  show ?case
  proof (cases "is_business_term_in_fibo q s bt")
    case (Inl e)
    then show ?thesis by (simp add: extends_refl)
  next
    case (Inr found)
    show ?thesis
    proof (cases "0 < length found")
      case True
      let ?u = "ns_term FIBO_NS (found ! 0)"
      let ?s' = "add (?u, RDF_type, OWL_Class) (add (BNode n, FIELD_hasBusinessTerm, ?u) s)"
      have "extends lo s ?s'"
        using Cons.prems
        by (intro extends_add_trans extends_refl shape_named shape_anonymous) simp_all
      moreover have "extends lo ?s' (snd (link_field_terms q (BNode n) bts ?s'))"
        using Cons.prems by (intro Cons.IH) simp_all
      ultimately show ?thesis using Inr True by (auto simp: Let_def intro: extends_trans)
    next
      case False
      then show ?thesis using Inr Cons by simp
    qed
  qed
qed

lemma extends_write_field_attrs:
  assumes "lo \<le> n" "n < next_bnode s"
  shows "extends lo s (write_field_attrs (BNode n) f s)"
proof -
  have 1: "extends lo s (add (BNode n, FIELD_fieldType, plain (field_type f))
             (add (BNode n, FIELD_fieldName, plain (field_name f))
               (add (BNode n, RDF_type, FIELD_Field) s)))" (is "extends lo s ?s1")
    using assms
    by (intro extends_add_trans [OF _ shape_anonymous] extends_refl) simp_all
  show ?thesis
  proof (cases "field_description f")
    case None
    with 1 show ?thesis by (simp add: write_field_attrs_def)
  next
    case (Some x)
    have "shape lo (next_bnode ?s1) (BNode n, FIELD_fieldDescription, plain x)"
      using assms by (intro shape_anonymous) simp_all
    with 1 have "extends lo s (add (BNode n, FIELD_fieldDescription, plain x) ?s1)"
      by (rule extends_add_trans)
    with Some show ?thesis by (simp add: write_field_attrs_def)
  qed
qed

lemma next_bnode_write_field_attrs [simp]:
  "next_bnode (write_field_attrs fn f s) = next_bnode s"
  by (simp add: write_field_attrs_def Let_def split: option.splits)

lemma add_field_unfold:
  "add_field q ds f s =
     (let n = next_bnode s;
          s2 = write_field_attrs (BNode n) f (s\<lparr>next_bnode := Suc n\<rparr>);
          r = (case field_business_terms f of
                 None \<Rightarrow> (None, s2)
               | Some bts \<Rightarrow> link_field_terms q (BNode n) bts s2)
      in case fst r of
           Some x \<Rightarrow> (Some x, snd r)
         | None \<Rightarrow> (None, add (ds, FIELD_hasField, BNode n) (snd r)))"
  by (simp add: add_field_def new_bnode_def Let_def case_prod_beta split: option.splits)

lemma extends_le: "extends lo s s' \<Longrightarrow> lo \<le> next_bnode s \<Longrightarrow> lo \<le> next_bnode s'"
  by (simp add: extends_def)

lemma extends_add_field:
  assumes "lo \<le> next_bnode s"
  shows "extends lo s (snd (add_field q (dataset_node i) f s))"
proof -
  define n where "n = next_bnode s"
  define s2 where "s2 = write_field_attrs (BNode n) f (s\<lparr>next_bnode := Suc n\<rparr>)"
  define r where "r = (case field_business_terms f of
                 None \<Rightarrow> (None, s2)
               | Some bts \<Rightarrow> link_field_terms q (BNode n) bts s2)"
  have n2: "next_bnode s2 = Suc n" by (simp add: s2_def)
  have "extends lo (s\<lparr>next_bnode := Suc n\<rparr>) s2"
    unfolding s2_def using assms by (intro extends_write_field_attrs) (simp_all add: n_def)
  with extends_supply [of lo s] have 1: "extends lo s s2"
    unfolding n_def by (rule extends_trans)
  have 2: "extends lo s2 (snd r)"
  proof (cases "field_business_terms f")
    case None
    then show ?thesis by (simp add: r_def extends_refl)
  next
    case (Some bts)
    have "extends lo s2 (snd (link_field_terms q (BNode n) bts s2))"
      using assms n2 by (intro extends_link_field_terms) (simp_all add: n_def)
    with Some show ?thesis by (simp add: r_def)
  qed
  have 3: "extends lo s (snd r)" using 1 2 by (rule extends_trans)
  have "next_bnode s2 \<le> next_bnode (snd r)" using 2 by (simp add: extends_def)
  then have 4: "n < next_bnode (snd r)" using n2 by simp
  have "shape lo (next_bnode (snd r)) (dataset_node i, FIELD_hasField, BNode n)"
    using 4 assms by (intro shape_edge) (simp_all add: n_def)
  with 3 have 5: "extends lo s (add (dataset_node i, FIELD_hasField, BNode n) (snd r))"
    by (rule extends_add_trans)
  have "add_field q (dataset_node i) f s =
        (case fst r of Some x \<Rightarrow> (Some x, snd r)
         | None \<Rightarrow> (None, add (dataset_node i, FIELD_hasField, BNode n) (snd r)))"
    unfolding add_field_unfold Let_def r_def s2_def n_def ..
  then show ?thesis using 3 5 by (cases "fst r") simp_all
qed

lemma extends_add_fields:
  "lo \<le> next_bnode s \<Longrightarrow> extends lo s (snd (add_fields q (dataset_node i) fs s))"
proof (induction fs arbitrary: s)
  case Nil
  show ?case by (simp add: extends_refl)
next
  case (Cons f fs)
  obtain e s1 where r: "add_field q (dataset_node i) f s = (e, s1)" by (cases "add_field q (dataset_node i) f s")
  have 1: "extends lo s s1" using extends_add_field [OF Cons.prems, of q i f] r by simp
  then have "lo \<le> next_bnode s1" using Cons.prems by (simp add: extends_def)
  from Cons.IH [OF this] 1 r show ?case
    by (auto split: option.splits intro: extends_trans)
qed

lemma extends_write_fields:
  "lo \<le> next_bnode s \<Longrightarrow> extends lo s (snd (write_fields q (dataset_node i) fl s))"
  unfolding write_fields_def by (auto intro: extends_add_fields extends_refl)

lemma extends_write_dataset:
  assumes "lo \<le> next_bnode s"
  shows "extends lo s (snd (write_dataset q i title d theme keywords issued business_terms fl s))"
proof -
  define ds where "ds = dataset_node i"
  define s1 where "s1 = write_header ds title d s"
  define s2 where "s2 = write_theme ds theme s1"
  define s3 where "s3 = write_keywords ds keywords s2"
  define s4 where "s4 = write_issued ds issued s3"
  define s5 where "s5 = write_business_terms ds business_terms s4"
  define r where "r = write_fields q ds fl s5"
  have 1: "extends lo s s1" unfolding s1_def ds_def by (rule extends_write_header)
  have "extends lo s1 s2" unfolding s2_def ds_def
    using extends_le [OF 1 assms] by (rule extends_write_theme)
  with 1 have 2: "extends lo s s2" by (rule extends_trans)
  have "extends lo s2 s3" unfolding s3_def ds_def by (rule extends_write_keywords)
  with 2 have 3: "extends lo s s3" by (rule extends_trans)
  have "extends lo s3 s4" unfolding s4_def ds_def by (rule extends_write_issued)
  with 3 have 4: "extends lo s s4" by (rule extends_trans)
  have "extends lo s4 s5" unfolding s5_def ds_def by (rule extends_write_business_terms)
  with 4 have 5: "extends lo s s5" by (rule extends_trans)
  have "extends lo s5 (snd r)" unfolding r_def ds_def
    using extends_le [OF 5 assms] by (rule extends_write_fields)
  with 5 have 6: "extends lo s (snd r)" by (rule extends_trans)
  have "shape lo (next_bnode (snd r)) (catalog (snd r), DCAT_dataset, ds)"
    unfolding ds_def by (intro shape_named) simp_all
  with 6 have 7: "extends lo s (add (catalog (snd r), DCAT_dataset, ds) (snd r))"
    by (rule extends_add_trans)
  have "write_dataset q i title d theme keywords issued business_terms fl s =
        (case fst r of Some x \<Rightarrow> (Inl x, snd r)
         | None \<Rightarrow> (Inr True, add (catalog (snd r), DCAT_dataset, ds) (snd r)))"
    unfolding write_dataset_def Let_def r_def s5_def s4_def s3_def s2_def s1_def ds_def
    by (simp add: case_prod_beta)
  then show ?thesis using 6 7 by (cases "fst r") simp_all
qed

lemma set_fold_graph_add: "set (fold graph_add ws G) = set G \<union> set ws"
  by (induction ws arbitrary: G) (auto simp: set_graph_add)

lemma distinct_fold_graph_add: "distinct G \<Longrightarrow> distinct (fold graph_add ws G)"
  by (induction ws arbitrary: G) (auto simp: distinct_graph_add)


lemma extends_subset: "extends lo s s' \<Longrightarrow> set (g s) \<subseteq> set (g s')"
  by (auto simp: extends_def set_fold_graph_add)

lemma extends_distinct: "extends lo s s' \<Longrightarrow> distinct (g s) \<Longrightarrow> distinct (g s')"
  by (auto simp: extends_def distinct_fold_graph_add)




lemma delete_dataset_distinct: "distinct (g s) \<Longrightarrow> distinct (g (delete_dataset s i))"
  by (simp add: g_delete_dataset)


subsection \<open>The dataset-level business terms\<close>

lemma link_term_mem:
  "(ds, RDFS_seeAlso, ns_term FIBO_NS term) \<in> set (g (link_term ds term s))
   \<and> (ns_term FIBO_NS term, RDF_type, OWL_Class) \<in> set (g (link_term ds term s))"
  by (simp add: link_term_def Let_def set_graph_add)

lemma link_term_subset: "set (g s) \<subseteq> set (g (link_term ds term s))"
  by (auto simp: link_term_def Let_def set_graph_add)

lemma fold_link_term_subset: "set (g s) \<subseteq> set (g (fold (link_term ds) terms s))"
proof (induction terms arbitrary: s)
  case Nil
  show ?case by simp
next
  case (Cons t ts)
  from Cons.IH [of "link_term ds t s"] link_term_subset [of s ds t] show ?case by auto
qed

lemma fold_link_term_mem:
  "term \<in> set terms \<Longrightarrow>
     (ds, RDFS_seeAlso, ns_term FIBO_NS term) \<in> set (g (fold (link_term ds) terms s))
   \<and> (ns_term FIBO_NS term, RDF_type, OWL_Class) \<in> set (g (fold (link_term ds) terms s))"
proof (induction terms arbitrary: s)
  case Nil
  then show ?case by simp
next
  case (Cons t ts)
  show ?case
  proof (cases "term = t")
    case True
    with link_term_mem [of ds t s] fold_link_term_subset [of "link_term ds t s" ds ts]
    show ?thesis by auto
  next
    case False
    with Cons show ?thesis by simp
  qed
qed

lemma write_dataset_tail:
  "set (g (write_business_terms (dataset_node i) business_terms s4))
     \<subseteq> set (g (snd (write_dataset q i title d theme keywords issued business_terms fl s)))"
  if "s4 = write_issued (dataset_node i) issued (write_keywords (dataset_node i) keywords
             (write_theme (dataset_node i) theme (write_header (dataset_node i) title d s)))"
proof -
  define s5 where "s5 = write_business_terms (dataset_node i) business_terms s4"
  define r where "r = write_fields q (dataset_node i) fl s5"
  have 1: "set (g s5) \<subseteq> set (g (snd r))"
    unfolding r_def using extends_write_fields [of 0 s5 q i fl] by (auto dest: extends_subset)
  have "write_dataset q i title d theme keywords issued business_terms fl s =
        (case fst r of Some x \<Rightarrow> (Inl x, snd r)
         | None \<Rightarrow> (Inr True, add (catalog (snd r), DCAT_dataset, dataset_node i) (snd r)))"
    unfolding write_dataset_def Let_def r_def s5_def that
    by (simp add: case_prod_beta)
  then have "set (g (snd r)) \<subseteq> set (g (snd (write_dataset q i title d theme keywords issued business_terms fl s)))"
    by (cases "fst r") (auto simp: set_graph_add)
  with 1 show ?thesis unfolding s5_def by blast
qed

text \<open>
  Claim C8. For every entry of the dataset-level \<^verbatim>\<open>business_terms\<close>, \<^verbatim>\<open>add_dataset\<close>
  adds a \<^verbatim>\<open>seeAlso\<close> edge from the dataset node to the node named by the ontology
  namespace followed by the raw term, and types that node as \<^verbatim>\<open>owl:Class\<close>. No
  condition on the store or on the term is needed: the resolver plays no part.
\<close>

theorem add_dataset_links_dataset_terms:
  "\<forall>term\<in>set terms.
     (dataset_node i, RDFS_seeAlso, ns_term FIBO_NS term)
       \<in> set (g (snd (add_dataset q s i title d theme keywords issued (Some terms) fl)))
   \<and> (ns_term FIBO_NS term, RDF_type, OWL_Class)
       \<in> set (g (snd (add_dataset q s i title d theme keywords issued (Some terms) fl)))"
proof
  fix tm assume t: "tm \<in> set terms"
  define s0 where "s0 = (if dataset_exists s i then delete_dataset s i else s)"
  define s4 where "s4 = write_issued (dataset_node i) issued (write_keywords (dataset_node i) keywords
             (write_theme (dataset_node i) theme (write_header (dataset_node i) title d s0)))"
  from t have "truthy (Some terms)" by (auto simp: truthy_def)
  then have "write_business_terms (dataset_node i) (Some terms) s4 = fold (link_term (dataset_node i)) terms s4"
    by (simp add: write_business_terms_def)
  with fold_link_term_mem [OF t, of "dataset_node i" s4]
  have "(dataset_node i, RDFS_seeAlso, ns_term FIBO_NS tm) \<in> set (g (write_business_terms (dataset_node i) (Some terms) s4))
      \<and> (ns_term FIBO_NS tm, RDF_type, OWL_Class) \<in> set (g (write_business_terms (dataset_node i) (Some terms) s4))"
    by simp
  with write_dataset_tail [OF s4_def]
  show "(dataset_node i, RDFS_seeAlso, ns_term FIBO_NS tm)
       \<in> set (g (snd (add_dataset q s i title d theme keywords issued (Some terms) fl)))
   \<and> (ns_term FIBO_NS tm, RDF_type, OWL_Class)
       \<in> set (g (snd (add_dataset q s i title d theme keywords issued (Some terms) fl)))"
    unfolding add_dataset_def s0_def by blast
qed

section \<open>Keywords and foreign keys\<close>

lemma count_list_distinct: "distinct xs \<Longrightarrow> x \<in> set xs \<Longrightarrow> count_list xs x = 1"
  by (induction xs) auto

lemma fold_add_subset: "set (g s) \<subseteq> set (g (fold (\<lambda>k. add (f k)) ks s))"
proof (induction ks arbitrary: s)
  case Nil
  show ?case by simp
next
  case (Cons a ks)
  from Cons [of "add (f a) s"] show ?case by (auto simp: set_graph_add)
qed

lemma fold_add_keyword_mem:
  "k \<in> set ks \<Longrightarrow> f k \<in> set (g (fold (\<lambda>k. add (f k)) ks s))"
proof (induction ks arbitrary: s)
  case Nil
  then show ?case by simp
next
  case (Cons a ks)
  show ?case
  proof (cases "k = a")
    case True
    then show ?thesis using fold_add_subset [of "add (f a) s" f ks] by (auto simp: set_graph_add)
  next
    case False
    with Cons show ?thesis by simp
  qed
qed

lemma write_dataset_keywords_mem:
  assumes "k \<in> set ks"
  shows "(dataset_node i, DCAT_keyword, plain k)
           \<in> set (g (snd (write_dataset q i title d theme (Some ks) issued business_terms fl s)))"
proof -
  define ds where "ds = dataset_node i"
  define s2 where "s2 = write_theme ds theme (write_header ds title d s)"
  define s3 where "s3 = write_keywords ds (Some ks) s2"
  define s5 where "s5 = write_business_terms ds business_terms (write_issued ds issued s3)"
  define r where "r = write_fields q ds fl s5"
  from assms have "truthy (Some ks)" by (auto simp: truthy_def)
  then have "s3 = fold (\<lambda>k. add (ds, DCAT_keyword, plain k)) ks s2"
    by (simp add: s3_def write_keywords_def)
  with fold_add_keyword_mem [OF assms, of "\<lambda>k. (ds, DCAT_keyword, plain k)" s2]
  have 3: "(ds, DCAT_keyword, plain k) \<in> set (g s3)" by simp
  have "extends 0 s3 (write_issued ds issued s3)"
    unfolding ds_def by (rule extends_write_issued)
  moreover have "extends 0 (write_issued ds issued s3) s5"
    unfolding s5_def ds_def by (rule extends_write_business_terms)
  moreover have "extends 0 s5 (snd r)"
    unfolding r_def ds_def by (rule extends_write_fields) simp
  ultimately have "extends 0 s3 (snd r)" by (blast intro: extends_trans)
  with 3 have 6: "(ds, DCAT_keyword, plain k) \<in> set (g (snd r))"
    by (auto dest: extends_subset)
  have "write_dataset q i title d theme (Some ks) issued business_terms fl s =
        (case fst r of Some x \<Rightarrow> (Inl x, snd r)
         | None \<Rightarrow> (Inr True, add (catalog (snd r), DCAT_dataset, ds) (snd r)))"
    unfolding write_dataset_def Let_def r_def s5_def s3_def s2_def ds_def
    by (simp add: case_prod_beta)
  with 6 show ?thesis unfolding ds_def by (cases "fst r") (auto simp: set_graph_add)
qed

lemma add_dataset_distinct:
  assumes "distinct (g s)"
  shows "distinct (g (snd (add_dataset q s i title d theme keywords issued business_terms fl)))"
proof -
  have "distinct (g (if dataset_exists s i then delete_dataset s i else s))"
    using assms by (simp add: delete_dataset_distinct)
  with extends_write_dataset [of 0] show ?thesis
    unfolding add_dataset_def by (blast intro: extends_distinct)
qed

lemma add_foreign_key_relationship_ok:
  assumes "dataset_exists s a" "dataset_exists s b"
  shows "fst (add_foreign_key_relationship s a b d) = Inr True"
    and "g (snd (add_foreign_key_relationship s a b d))
           = (if truthy d then graph_add (dataset_node a, RDFS_comment, plain (the d)) else id)
               (graph_add (dataset_node a, EX_hasForeignKeyTo, dataset_node b) (g s))"
    and "catalog_uri (snd (add_foreign_key_relationship s a b d)) = catalog_uri s"
    and "next_bnode (snd (add_foreign_key_relationship s a b d)) = next_bnode s"
  using assms by (simp_all add: add_foreign_key_relationship_def Let_def)

lemma add_foreign_key_relationship_keeps:
  assumes "dataset_exists s a" "dataset_exists s b"
  shows "dataset_exists (snd (add_foreign_key_relationship s a b d)) c \<longleftrightarrow> dataset_exists s c"
proof -
  have "RDF_type \<noteq> EX_hasForeignKeyTo" "RDF_type \<noteq> RDFS_comment"
    by (simp_all add: vocabulary ns_term_def namespaces)
  then show ?thesis
    using assms by (auto simp: dataset_exists_def add_foreign_key_relationship_ok set_graph_add)
qed

text \<open>
  Claim C3, as the code has it. The store is a set: every keyword of the sequence is
  stored, and stored once, however often it occurs in the sequence; and after two
  calls of \<^verbatim>\<open>add_foreign_key_relationship\<close> for the same pair of existing datasets
  the edge \<^verbatim>\<open>hasForeignKeyTo\<close> is in the store once.
\<close>

theorem keywords_and_foreign_keys_stored_once:
  "distinct (g s) \<longrightarrow>
     (\<forall>k\<in>set ks. count_list (g (snd (add_dataset q s i title d theme (Some ks) issued business_terms fl)))
                    (dataset_node i, DCAT_keyword, plain k) = 1)
   \<and> (dataset_exists s a \<and> dataset_exists s b \<longrightarrow>
        count_list (g (snd (add_foreign_key_relationship
                              (snd (add_foreign_key_relationship s a b descr)) a b descr)))
          (dataset_node a, EX_hasForeignKeyTo, dataset_node b) = 1)"
proof (intro impI conjI ballI)
  fix k assume d: "distinct (g s)" and k: "k \<in> set ks"
  have "(dataset_node i, DCAT_keyword, plain k)
          \<in> set (g (snd (add_dataset q s i title d theme (Some ks) issued business_terms fl)))"
    unfolding add_dataset_def by (rule write_dataset_keywords_mem [OF k])
  with add_dataset_distinct [OF d]
  show "count_list (g (snd (add_dataset q s i title d theme (Some ks) issued business_terms fl)))
          (dataset_node i, DCAT_keyword, plain k) = 1"
    by (rule count_list_distinct)
next
  assume d: "distinct (g s)" and e: "dataset_exists s a \<and> dataset_exists s b"
  define s1 where "s1 = snd (add_foreign_key_relationship s a b descr)"
  define s2 where "s2 = snd (add_foreign_key_relationship s1 a b descr)"
  have e1: "dataset_exists s1 a" "dataset_exists s1 b"
    using e by (simp_all add: s1_def add_foreign_key_relationship_keeps)
  have d1: "distinct (g s1)"
    using d e by (simp add: s1_def add_foreign_key_relationship_ok distinct_graph_add)
  have d2: "distinct (g s2)"
    using d1 e1 by (simp add: s2_def add_foreign_key_relationship_ok distinct_graph_add)
  have "(dataset_node a, EX_hasForeignKeyTo, dataset_node b) \<in> set (g s2)"
    using e1 by (simp add: s2_def add_foreign_key_relationship_ok set_graph_add)
  with d2 show "count_list (g (snd (add_foreign_key_relationship
                              (snd (add_foreign_key_relationship s a b descr)) a b descr)))
          (dataset_node a, EX_hasForeignKeyTo, dataset_node b) = 1"
    unfolding s2_def s1_def by (rule count_list_distinct)
qed

text \<open>
  Claim C4, as the code has it. \<^verbatim>\<open>add_foreign_key_relationship\<close> raises exactly when
  one of the two datasets does not exist, and then leaves the store as it was, with
  all the triples it held; when both exist it returns \<^verbatim>\<open>True\<close> and adds the edge
  \<^verbatim>\<open>hasForeignKeyTo\<close> and, for a description that is given and not empty, the comment
  on the source dataset, and nothing else.
\<close>

theorem add_foreign_key_relationship_result:
  "(fst (add_foreign_key_relationship s a b descr) = Inl ValueError
      \<longleftrightarrow> \<not> (dataset_exists s a \<and> dataset_exists s b))
   \<and> (\<not> (dataset_exists s a \<and> dataset_exists s b)
        \<longrightarrow> snd (add_foreign_key_relationship s a b descr) = s)
   \<and> (dataset_exists s a \<and> dataset_exists s b
        \<longrightarrow> fst (add_foreign_key_relationship s a b descr) = Inr True
          \<and> set (g (snd (add_foreign_key_relationship s a b descr)))
              = set (g s) \<union> {(dataset_node a, EX_hasForeignKeyTo, dataset_node b)}
                \<union> (if truthy descr then {(dataset_node a, RDFS_comment, plain (the descr))} else {}))"
  by (auto simp: add_foreign_key_relationship_def Let_def set_graph_add)

section \<open>The resolver\<close>

text \<open>
  Claim C6, as the code has it. For a label without double quote, backslash, line
  break and tab, and whatever the engine does with other labels,
  \<^verbatim>\<open>is_business_term_in_fibo\<close> returns, without an error, the text of the subject of
  every \<^verbatim>\<open>rdfs:label\<close> triple whose object has exactly the given string as its string
  value, one entry for each such triple and nothing else; the subject's type plays no
  part. The result is empty exactly when no label matches.
\<close>

theorem is_business_term_in_fibo_exact:
  "splices label \<longrightarrow>
     (\<exists>ids. is_business_term_in_fibo q s label = Inr ids
        \<and> set ids = {node_text n |n. \<exists>l. (n, RDFS_label, l) \<in> set (g s) \<and> sparql_str l = label}
        \<and> (distinct (g s) \<longrightarrow>
             length ids = card {t \<in> set (g s). pred t = RDFS_label \<and> sparql_str (obj t) = label})
        \<and> (ids = [] \<longleftrightarrow> \<not> (\<exists>n l. (n, RDFS_label, l) \<in> set (g s) \<and> sparql_str l = label)))"
proof
  assume sp: "splices label"
  let ?rows = "label_rows label (g s)"
  let ?ids = "map (\<lambda>t. node_text (subj t)) ?rows"
  have set_rows: "set ?rows = {t \<in> set (g s). pred t = RDFS_label \<and> sparql_str (obj t) = label}"
    by (auto simp: label_rows_def)
  have 1: "is_business_term_in_fibo q s label = Inr ?ids"
    using sp by (simp add: is_business_term_in_fibo_def)
  have 2: "set ?ids = {node_text n |n. \<exists>l. (n, RDFS_label, l) \<in> set (g s) \<and> sparql_str l = label}"
    unfolding set_map set_rows by (force simp: subj_def pred_def obj_def image_iff)
  have 3: "length ?ids = card {t \<in> set (g s). pred t = RDFS_label \<and> sparql_str (obj t) = label}"
    if "distinct (g s)"
  proof -
    have "distinct ?rows" using that by (simp add: label_rows_def)
    then have "card (set ?rows) = length ?rows" by (rule distinct_card)
    then show ?thesis by (simp add: set_rows)
  qed
  have "?ids = [] \<longleftrightarrow> set ?rows = {}" by simp
  also have "\<dots> \<longleftrightarrow> \<not> (\<exists>n l. (n, RDFS_label, l) \<in> set (g s) \<and> sparql_str l = label)"
    unfolding set_rows by (force simp: pred_def obj_def)
  finally have 4: "?ids = [] \<longleftrightarrow> \<not> (\<exists>n l. (n, RDFS_label, l) \<in> set (g s) \<and> sparql_str l = label)" .
  from 1 2 3 4 show "\<exists>ids. is_business_term_in_fibo q s label = Inr ids
        \<and> set ids = {node_text n |n. \<exists>l. (n, RDFS_label, l) \<in> set (g s) \<and> sparql_str l = label}
        \<and> (distinct (g s) \<longrightarrow>
             length ids = card {t \<in> set (g s). pred t = RDFS_label \<and> sparql_str (obj t) = label})
        \<and> (ids = [] \<longleftrightarrow> \<not> (\<exists>n l. (n, RDFS_label, l) \<in> set (g s) \<and> sparql_str l = label))"
    by blast
qed

section \<open>Labels that splice leave the engine out\<close>

lemma resolver_engine_free:
  "splices bt \<Longrightarrow> is_business_term_in_fibo q s bt = is_business_term_in_fibo q' s bt"
  by (simp add: is_business_term_in_fibo_def)

lemma link_field_terms_engine_free:
  "list_all splices bts \<Longrightarrow> link_field_terms q n bts s = link_field_terms q' n bts s"
proof (induction bts arbitrary: s)
  case Nil
  show ?case by simp
next
  case (Cons bt bts)
  then have r: "is_business_term_in_fibo q s bt = is_business_term_in_fibo q' s bt"
    and ih: "link_field_terms q n bts s' = link_field_terms q' n bts s'" for s'
    by (simp_all add: resolver_engine_free [of bt q s q'])
  show ?case by (simp add: r ih Let_def split: sum.splits)
qed

lemma add_field_engine_free:
  "field_splices f \<Longrightarrow> add_field q ds f s = add_field q' ds f s"
  by (cases "field_business_terms f")
     (simp_all add: add_field_unfold field_splices_def link_field_terms_engine_free [of _ q _ _ q'])

lemma add_fields_engine_free:
  "list_all field_splices fs \<Longrightarrow> add_fields q ds fs s = add_fields q' ds fs s"
proof (induction fs arbitrary: s)
  case Nil
  show ?case by simp
next
  case (Cons f fs)
  then have "add_field q ds f s = add_field q' ds f s"
    and "add_fields q ds fs s' = add_fields q' ds fs s'" for s'
    by (simp_all add: add_field_engine_free)
  then show ?case by (simp split: prod.splits option.splits)
qed

lemma add_dataset_engine_free:
  assumes "labels_splice fl"
  shows "add_dataset q s i title d theme keywords issued business_terms fl
           = add_dataset q' s i title d theme keywords issued business_terms fl"
proof -
  have "write_fields q ds fl s' = write_fields q' ds fl s'" for ds s'
    using assms add_fields_engine_free [of "the fl" q ds s' q']
    by (cases fl) (simp_all add: write_fields_def labels_splice_def truthy_def)
  then show ?thesis by (simp add: add_dataset_def write_dataset_def)
qed

section \<open>Two registrations side by side\<close>




lemma shift_triple_parts [simp]:
  "subj (shift_triple lo k x) = shift_node lo k (subj x)"
  "pred (shift_triple lo k x) = shift_node lo k (pred x)"
  "obj (shift_triple lo k x) = shift_node lo k (obj x)"
  by (simp_all add: shift_triple_def subj_def pred_def obj_def)



































lemma shift_dataset_node [simp]: "shift_node lo k n = dataset_node i \<longleftrightarrow> n = dataset_node i"
  by (cases n) (simp_all add: dataset_node_def ns_term_def)






section \<open>The theorems on the sample stores\<close>

theorem add_dataset_links_dataset_terms_witness:
  "''LegalEntity'' \<in> set [''LegalEntity'']
   \<and> is_business_term_in_fibo probe_engine example_catalog ''LegalEntity'' = Inr []
   \<and> (dataset_node ''customers'', RDFS_seeAlso, ns_term FIBO_NS ''LegalEntity'')
       \<in> set (g (snd (add_dataset probe_engine example_catalog ''customers'' ''Customers'' ''Customer records''
                  None None None (Some [''LegalEntity'']) None)))
   \<and> (ns_term FIBO_NS ''LegalEntity'', RDF_type, OWL_Class)
       \<in> set (g (snd (add_dataset probe_engine example_catalog ''customers'' ''Customers'' ''Customer records''
                  None None None (Some [''LegalEntity'']) None)))"
proof -
  have r: "is_business_term_in_fibo probe_engine example_catalog ''LegalEntity'' = Inr []"
    by code_simp
  from add_dataset_links_dataset_terms [of "[''LegalEntity'']" "''customers''" probe_engine example_catalog
      "''Customers''" "''Customer records''" None None None None] r
  show ?thesis by simp
qed

theorem delete_dataset_frame_witness:
  "anonymous_fields small_store ''a'' \<and> ''b'' \<noteq> ''a''
   \<and> (dataset_node ''b'', EX_hasForeignKeyTo, dataset_node ''a'') \<in> set (g small_store)
   \<and> (dataset_node ''b'', EX_hasForeignKeyTo, dataset_node ''a'')
        \<in> set (g (delete_dataset small_store ''a''))
   \<and> \<not> dataset_exists (delete_dataset small_store ''a'') ''a''"
proof -
  have h: "anonymous_fields small_store ''a'' \<and> ''b'' \<noteq> ''a''
     \<and> (dataset_node ''b'', EX_hasForeignKeyTo, dataset_node ''a'') \<in> set (g small_store)"
    by code_simp
  with delete_dataset_frame [of small_store "''a''" "''b''"] show ?thesis
    by blast
qed

theorem delete_dataset_keeps_terms_witness:
  "anonymous_fields small_store ''a'' \<and> catalog small_store \<noteq> ns_term FIBO_NS ''T''
   \<and> (ns_term FIBO_NS ''T'', RDF_type, OWL_Class) \<in> set (g small_store)
   \<and> (BNode 0, FIELD_hasBusinessTerm, ns_term FIBO_NS ''T'') \<notin> set (g (delete_dataset small_store ''a''))
   \<and> (ns_term FIBO_NS ''T'', RDF_type, OWL_Class) \<in> set (g (delete_dataset small_store ''a''))"
proof -
  have h: "anonymous_fields small_store ''a'' \<and> catalog small_store \<noteq> ns_term FIBO_NS ''T''"
    by code_simp
  have f: "BNode 0 \<in> set (field_nodes small_store ''a'')"
    by code_simp
  have m: "(ns_term FIBO_NS ''T'', RDF_type, OWL_Class) \<in> set (g small_store)"
    by code_simp
  from delete_dataset_keeps_terms [of small_store "''a''" "''T''"] h
  have c: "\<forall>t\<in>set (g (delete_dataset small_store ''a'')). subj t \<notin> set (field_nodes small_store ''a'')"
    "\<forall>t\<in>set (g small_store). subj t = ns_term FIBO_NS ''T'' \<longrightarrow> t \<in> set (g (delete_dataset small_store ''a''))"
    by blast+
  have "(BNode 0, FIELD_hasBusinessTerm, ns_term FIBO_NS ''T'') \<notin> set (g (delete_dataset small_store ''a''))"
    using c(1) f by (auto simp: subj_def)
  moreover have "(ns_term FIBO_NS ''T'', RDF_type, OWL_Class) \<in> set (g (delete_dataset small_store ''a''))"
    using c(2) m by (auto simp: subj_def)
  ultimately show ?thesis using h m by blast
qed

lemma empty_catalog_explicit:
  "empty_catalog =
     \<lparr>g = [(URIRef ''http://data.example.com/catalog/main-catalog'', RDF_type, DCAT_Catalog),
           (URIRef ''http://data.example.com/catalog/main-catalog'', DCTERMS_title,
            plain ''Main Data Catalog''),
           (URIRef ''http://data.example.com/catalog/main-catalog'', DCTERMS_description,
            plain ''This is the main data catalog for our organization'')],
      catalog_uri = ''http://data.example.com/catalog/main-catalog'',
      next_bnode = 0\<rparr>"
  by code_simp

lemma store_ab_linked_explicit:
  "store_ab_linked =
     \<lparr>g = [(URIRef ''http://data.example.com/catalog/main-catalog'', RDF_type, DCAT_Catalog),
           (URIRef ''http://data.example.com/catalog/main-catalog'', DCTERMS_title,
            plain ''Main Data Catalog''),
           (URIRef ''http://data.example.com/catalog/main-catalog'', DCTERMS_description,
            plain ''This is the main data catalog for our organization''),
           (dataset_node ''a'', RDF_type, DCAT_Dataset),
           (dataset_node ''a'', DCTERMS_title, plain ''A''),
           (dataset_node ''a'', DCTERMS_description, plain ''first''),
           (URIRef ''http://data.example.com/catalog/main-catalog'', DCAT_dataset, dataset_node ''a''),
           (dataset_node ''b'', RDF_type, DCAT_Dataset),
           (dataset_node ''b'', DCTERMS_title, plain ''B''),
           (dataset_node ''b'', DCTERMS_description, plain ''second''),
           (URIRef ''http://data.example.com/catalog/main-catalog'', DCAT_dataset, dataset_node ''b''),
           (dataset_node ''a'', EX_hasForeignKeyTo, dataset_node ''b'')],
      catalog_uri = ''http://data.example.com/catalog/main-catalog'',
      next_bnode = 0\<rparr>"
  by code_simp


lemma store_ab_explicit:
  "store_ab =
     \<lparr>g = [(URIRef ''http://data.example.com/catalog/main-catalog'', RDF_type, DCAT_Catalog),
           (URIRef ''http://data.example.com/catalog/main-catalog'', DCTERMS_title,
            plain ''Main Data Catalog''),
           (URIRef ''http://data.example.com/catalog/main-catalog'', DCTERMS_description,
            plain ''This is the main data catalog for our organization''),
           (dataset_node ''a'', RDF_type, DCAT_Dataset),
           (dataset_node ''a'', DCTERMS_title, plain ''A''),
           (dataset_node ''a'', DCTERMS_description, plain ''first''),
           (URIRef ''http://data.example.com/catalog/main-catalog'', DCAT_dataset, dataset_node ''a''),
           (dataset_node ''b'', RDF_type, DCAT_Dataset),
           (dataset_node ''b'', DCTERMS_title, plain ''B''),
           (dataset_node ''b'', DCTERMS_description, plain ''second''),
           (URIRef ''http://data.example.com/catalog/main-catalog'', DCAT_dataset, dataset_node ''b'')],
      catalog_uri = ''http://data.example.com/catalog/main-catalog'',
      next_bnode = 0\<rparr>"
  by code_simp

theorem keywords_stored_twice_counterexample:
  "count_list (g keyword_store) (dataset_node ''d'', DCAT_keyword, plain ''k'') = 1
   \<and> dataset_exists store_ab ''a'' \<and> dataset_exists store_ab ''b''
   \<and> count_list (g (snd (add_foreign_key_relationship store_ab_linked ''a'' ''b'' None)))
        (dataset_node ''a'', EX_hasForeignKeyTo, dataset_node ''b'') = 1"
proof -
  have "count_list (g keyword_store) (dataset_node ''d'', DCAT_keyword, plain ''k'') = 1"
    unfolding keyword_store_def empty_catalog_explicit by code_simp
  moreover have "dataset_exists store_ab ''a'' \<and> dataset_exists store_ab ''b''"
    unfolding store_ab_explicit by code_simp
  moreover have "count_list (g (snd (add_foreign_key_relationship store_ab_linked ''a'' ''b'' None)))
        (dataset_node ''a'', EX_hasForeignKeyTo, dataset_node ''b'') = 1"
    unfolding store_ab_linked_explicit by code_simp
  ultimately show ?thesis by blast
qed

theorem keywords_and_foreign_keys_stored_once_witness:
  "distinct (g empty_catalog) \<and> ''k'' \<in> set [''k'', ''k'']
   \<and> count_list (g (snd (add_dataset probe_engine empty_catalog ''d'' ''D'' ''data'' None (Some [''k'', ''k''])
                       None None None)))
        (dataset_node ''d'', DCAT_keyword, plain ''k'') = 1
   \<and> distinct (g store_ab) \<and> dataset_exists store_ab ''a'' \<and> dataset_exists store_ab ''b''
   \<and> count_list (g (snd (add_foreign_key_relationship
                         (snd (add_foreign_key_relationship store_ab ''a'' ''b'' None)) ''a'' ''b'' None)))
        (dataset_node ''a'', EX_hasForeignKeyTo, dataset_node ''b'') = 1"
proof -
  have 1: "distinct (g empty_catalog)"
    unfolding empty_catalog_explicit by code_simp
  have 2: "distinct (g store_ab) \<and> dataset_exists store_ab ''a'' \<and> dataset_exists store_ab ''b''"
    unfolding store_ab_explicit by code_simp
  from keywords_and_foreign_keys_stored_once [of empty_catalog "[''k'', ''k'']" probe_engine "''d''" "''D''"
      "''data''" None None None None] 1
  have 3: "count_list (g (snd (add_dataset probe_engine empty_catalog ''d'' ''D'' ''data'' None (Some [''k'', ''k''])
                       None None None)))
        (dataset_node ''d'', DCAT_keyword, plain ''k'') = 1"
    by simp
  from keywords_and_foreign_keys_stored_once [of store_ab _ _ _ _ _ _ _ _ _ "''a''" "''b''" None] 2
  have 4: "count_list (g (snd (add_foreign_key_relationship
                         (snd (add_foreign_key_relationship store_ab ''a'' ''b'' None)) ''a'' ''b'' None)))
        (dataset_node ''a'', EX_hasForeignKeyTo, dataset_node ''b'') = 1"
    by blast
  from 1 2 3 4 show ?thesis by simp
qed

theorem foreign_key_error_counterexample:
  "dataset_exists store_ab ''a'' \<and> dataset_exists store_ab ''b''
   \<and> \<not> dataset_exists dangling_store ''b''
   \<and> fst (add_foreign_key_relationship dangling_store ''a'' ''b'' None) = Inl ValueError
   \<and> count_list (g (snd (add_foreign_key_relationship dangling_store ''a'' ''b'' None)))
        (dataset_node ''a'', EX_hasForeignKeyTo, dataset_node ''b'') = 1"
proof -
  have "dataset_exists store_ab ''a'' \<and> dataset_exists store_ab ''b''"
    unfolding store_ab_explicit by code_simp
  moreover have "\<not> dataset_exists dangling_store ''b''
   \<and> fst (add_foreign_key_relationship dangling_store ''a'' ''b'' None) = Inl ValueError
   \<and> count_list (g (snd (add_foreign_key_relationship dangling_store ''a'' ''b'' None)))
        (dataset_node ''a'', EX_hasForeignKeyTo, dataset_node ''b'') = 1"
    unfolding dangling_store_def store_ab_linked_explicit by code_simp
  ultimately show ?thesis by blast
qed

theorem add_foreign_key_relationship_result_witness:
  "\<not> (dataset_exists empty_catalog ''missing-a'' \<and> dataset_exists empty_catalog ''missing-b'')
   \<and> fst (add_foreign_key_relationship empty_catalog ''missing-a'' ''missing-b'' None) = Inl ValueError
   \<and> snd (add_foreign_key_relationship empty_catalog ''missing-a'' ''missing-b'' None) = empty_catalog
   \<and> dataset_exists store_ab ''a'' \<and> dataset_exists store_ab ''b''
   \<and> fst (add_foreign_key_relationship store_ab ''a'' ''b'' (Some ''key'')) = Inr True
   \<and> set (g (snd (add_foreign_key_relationship store_ab ''a'' ''b'' (Some ''key''))))
       = set (g store_ab) \<union> {(dataset_node ''a'', EX_hasForeignKeyTo, dataset_node ''b'')}
          \<union> {(dataset_node ''a'', RDFS_comment, plain ''key'')}"
proof -
  have 1: "\<not> (dataset_exists empty_catalog ''missing-a'' \<and> dataset_exists empty_catalog ''missing-b'')"
    unfolding empty_catalog_explicit by code_simp
  have 2: "dataset_exists store_ab ''a'' \<and> dataset_exists store_ab ''b''"
    unfolding store_ab_explicit by code_simp
  have 3: "truthy (Some ''key'')" by (simp add: truthy_def)
  from add_foreign_key_relationship_result [of empty_catalog "''missing-a''" "''missing-b''" None] 1
  have 4: "fst (add_foreign_key_relationship empty_catalog ''missing-a'' ''missing-b'' None) = Inl ValueError
     \<and> snd (add_foreign_key_relationship empty_catalog ''missing-a'' ''missing-b'' None) = empty_catalog"
    by blast
  from add_foreign_key_relationship_result [of store_ab "''a''" "''b''" "Some ''key''"] 2 3
  have 5: "fst (add_foreign_key_relationship store_ab ''a'' ''b'' (Some ''key'')) = Inr True
   \<and> set (g (snd (add_foreign_key_relationship store_ab ''a'' ''b'' (Some ''key''))))
       = set (g store_ab) \<union> {(dataset_node ''a'', EX_hasForeignKeyTo, dataset_node ''b'')}
          \<union> {(dataset_node ''a'', RDFS_comment, plain ''key'')}"
    by simp
  from 1 2 4 5 show ?thesis by blast
qed

lemma example_catalog_explicit:
  "example_catalog =
     \<lparr>g = [(URIRef ''http://data.example.com/catalog/main-catalog'', RDF_type, DCAT_Catalog),
           (URIRef ''http://data.example.com/catalog/main-catalog'', DCTERMS_title,
            plain ''Main Data Catalog''),
           (URIRef ''http://data.example.com/catalog/main-catalog'', DCTERMS_description,
            plain ''This is the main data catalog for our organization''),
           (URIRef T1, RDFS_label, plain ''Legal Entity''),
           (URIRef T1, RDF_type, OWL_Class)],
      catalog_uri = ''http://data.example.com/catalog/main-catalog'',
      next_bnode = 0\<rparr>"
  by code_simp

theorem is_business_term_in_fibo_exact_witness:
  "splices ''Legal Entity'' \<and> splices ''legal entity'' \<and> splices ''Natural Person''
   \<and> is_business_term_in_fibo probe_engine example_catalog ''Legal Entity'' = Inr [T1]
   \<and> is_business_term_in_fibo probe_engine example_catalog ''legal entity'' = Inr []
   \<and> is_business_term_in_fibo probe_engine example_catalog ''Natural Person'' = Inr []
   \<and> (\<exists>ids. is_business_term_in_fibo probe_engine example_catalog ''Legal Entity'' = Inr ids
        \<and> set ids = {node_text n |n. \<exists>l. (n, RDFS_label, l) \<in> set (g example_catalog)
                                        \<and> sparql_str l = ''Legal Entity''})"
proof -
  have 1: "splices ''Legal Entity'' \<and> splices ''legal entity'' \<and> splices ''Natural Person''"
    by code_simp
  have 2: "is_business_term_in_fibo probe_engine example_catalog ''Legal Entity'' = Inr [T1]
     \<and> is_business_term_in_fibo probe_engine example_catalog ''legal entity'' = Inr []
     \<and> is_business_term_in_fibo probe_engine example_catalog ''Natural Person'' = Inr []"
    unfolding example_catalog_explicit by code_simp
  from is_business_term_in_fibo_exact [of "''Legal Entity''" probe_engine example_catalog] 1
  have 3: "\<exists>ids. is_business_term_in_fibo probe_engine example_catalog ''Legal Entity'' = Inr ids
        \<and> set ids = {node_text n |n. \<exists>l. (n, RDFS_label, l) \<in> set (g example_catalog)
                                        \<and> sparql_str l = ''Legal Entity''}"
    by blast
  from 1 2 3 show ?thesis by blast
qed

theorem is_business_term_in_fibo_counterexample:
  "graph_triples (Some (URIRef ''http://example.org/notes/n1''), Some RDF_type, None) (g labelled_catalog) = []
   \<and> is_business_term_in_fibo probe_engine labelled_catalog ''Legal Entity'' = Inr [''http://example.org/notes/n1'']
   \<and> label_rows [CHR 0x22] (g labelled_catalog) = []
   \<and> is_business_term_in_fibo probe_engine labelled_catalog [CHR 0x22] = Inl ParseException"
  by code_simp

lemma orders_result_explicit:
  "orders_result =
     (Inr True,
      \<lparr>g = [(URIRef ''http://data.example.com/catalog/main-catalog'', RDF_type, DCAT_Catalog),
            (URIRef ''http://data.example.com/catalog/main-catalog'', DCTERMS_title,
             plain ''Main Data Catalog''),
            (URIRef ''http://data.example.com/catalog/main-catalog'', DCTERMS_description,
             plain ''This is the main data catalog for our organization''),
            (URIRef T1, RDFS_label, plain ''Legal Entity''),
            (URIRef T1, RDF_type, OWL_Class),
            (dataset_node ''orders'', RDF_type, DCAT_Dataset),
            (dataset_node ''orders'', DCTERMS_title, plain ''Orders''),
            (dataset_node ''orders'', DCTERMS_description, plain ''Order records''),
            (BNode 0, RDF_type, FIELD_Field),
            (BNode 0, FIELD_fieldName, plain ''order_id''),
            (BNode 0, FIELD_fieldType, plain ''string''),
            (dataset_node ''orders'', FIELD_hasField, BNode 0),
            (BNode 1, RDF_type, FIELD_Field),
            (BNode 1, FIELD_fieldName, plain ''customer''),
            (BNode 1, FIELD_fieldType, plain ''string''),
            (BNode 1, FIELD_hasBusinessTerm, ns_term FIBO_NS T1),
            (ns_term FIBO_NS T1, RDF_type, OWL_Class),
            (dataset_node ''orders'', FIELD_hasField, BNode 1),
            (URIRef ''http://data.example.com/catalog/main-catalog'', DCAT_dataset,
             dataset_node ''orders'')],
       catalog_uri = ''http://data.example.com/catalog/main-catalog'',
       next_bnode = 2\<rparr>)"
  unfolding orders_result_def example_catalog_explicit by code_simp

text \<open>
  Claim C1 on the scenario of the specification, whatever the engine \<open>q\<close>: the labels
  of the scenario splice. The resolver finds \<open>T1\<close> for the label
  of the field \<^verbatim>\<open>customer\<close>, and the field gets one \<^verbatim>\<open>hasBusinessTerm\<close> edge; its
  target and the node typed as \<^verbatim>\<open>owl:Class\<close> is the node named by the ontology
  namespace followed by the whole of \<open>T1\<close>, which is not \<open>T1\<close>. The field \<^verbatim>\<open>order_id\<close>
  gets no edge and the call returns \<^verbatim>\<open>True\<close>.
\<close>

theorem field_term_target_on_scenario:
  "add_dataset q example_catalog ''orders'' ''Orders'' ''Order records''
       None None None None (Some example_fields) = orders_result
   \<and> fst orders_result = Inr True
   \<and> field_nodes store_orders ''orders'' = [BNode 0, BNode 1]
   \<and> is_business_term_in_fibo probe_engine example_catalog ''Legal Entity'' = Inr [T1]
   \<and> graph_objects (BNode 0) FIELD_hasBusinessTerm (g store_orders) = []
   \<and> graph_objects (BNode 1) FIELD_hasBusinessTerm (g store_orders) = [ns_term FIBO_NS T1]
   \<and> ns_term FIBO_NS T1 \<noteq> URIRef T1
   \<and> (BNode 1, FIELD_hasBusinessTerm, URIRef T1) \<notin> set (g store_orders)"
proof -
  have "labels_splice (Some example_fields)"
    by code_simp
  then have "add_dataset q example_catalog ''orders'' ''Orders'' ''Order records''
       None None None None (Some example_fields) = orders_result"
    unfolding orders_result_def by (rule add_dataset_engine_free)
  moreover have "fst orders_result = Inr True"
    unfolding orders_result_explicit by simp
  moreover have "is_business_term_in_fibo probe_engine example_catalog ''Legal Entity'' = Inr [T1]"
    unfolding example_catalog_explicit by code_simp
  moreover have "field_nodes store_orders ''orders'' = [BNode 0, BNode 1]
   \<and> graph_objects (BNode 0) FIELD_hasBusinessTerm (g store_orders) = []
   \<and> graph_objects (BNode 1) FIELD_hasBusinessTerm (g store_orders) = [ns_term FIBO_NS T1]
   \<and> ns_term FIBO_NS T1 \<noteq> URIRef T1
   \<and> (BNode 1, FIELD_hasBusinessTerm, URIRef T1) \<notin> set (g store_orders)"
    unfolding store_orders_def orders_result_explicit snd_conv by code_simp
  ultimately show ?thesis by blast
qed

lemma themed_once_explicit:
  "themed_once =
     \<lparr>g = [(URIRef ''http://data.example.com/catalog/main-catalog'', RDF_type, DCAT_Catalog),
           (URIRef ''http://data.example.com/catalog/main-catalog'', DCTERMS_title,
            plain ''Main Data Catalog''),
           (URIRef ''http://data.example.com/catalog/main-catalog'', DCTERMS_description,
            plain ''This is the main data catalog for our organization''),
           (dataset_node ''d'', RDF_type, DCAT_Dataset),
           (dataset_node ''d'', DCTERMS_title, plain ''D''),
           (dataset_node ''d'', DCTERMS_description, plain ''data''),
           (BNode 0, RDF_type, SKOS_Concept),
           (BNode 0, SKOS_prefLabel, plain ''sales''),
           (dataset_node ''d'', DCAT_theme, BNode 0),
           (URIRef ''http://data.example.com/catalog/main-catalog'', DCAT_dataset, dataset_node ''d'')],
      catalog_uri = ''http://data.example.com/catalog/main-catalog'',
      next_bnode = 1\<rparr>"
  unfolding themed_once_def empty_catalog_explicit by code_simp

lemma themed_twice_explicit:
  "themed_twice =
     \<lparr>g = [(URIRef ''http://data.example.com/catalog/main-catalog'', RDF_type, DCAT_Catalog),
           (URIRef ''http://data.example.com/catalog/main-catalog'', DCTERMS_title,
            plain ''Main Data Catalog''),
           (URIRef ''http://data.example.com/catalog/main-catalog'', DCTERMS_description,
            plain ''This is the main data catalog for our organization''),
           (BNode 0, RDF_type, SKOS_Concept),
           (BNode 0, SKOS_prefLabel, plain ''sales''),
           (dataset_node ''d'', RDF_type, DCAT_Dataset),
           (dataset_node ''d'', DCTERMS_title, plain ''D''),
           (dataset_node ''d'', DCTERMS_description, plain ''data''),
           (BNode 1, RDF_type, SKOS_Concept),
           (BNode 1, SKOS_prefLabel, plain ''sales''),
           (dataset_node ''d'', DCAT_theme, BNode 1),
           (URIRef ''http://data.example.com/catalog/main-catalog'', DCAT_dataset, dataset_node ''d'')],
      catalog_uri = ''http://data.example.com/catalog/main-catalog'',
      next_bnode = 2\<rparr>"
  unfolding themed_twice_def themed_once_explicit by code_simp

text \<open>
  Claim C2 on a dataset with a theme that is registered twice, whatever the engine
  \<open>q\<close>: the dataset has no fields. The second call finds
  the dataset, deletes it and writes it anew with the theme node \<open>BNode 1\<close>; the two
  triples of the first theme node \<open>BNode 0\<close>, its type and its preferred label, are
  still in the store.
\<close>

theorem theme_triples_survive_replacement:
  "snd (add_dataset q empty_catalog ''d'' ''D'' ''data'' (Some ''sales'') None None None None)
     = themed_once
   \<and> snd (add_dataset q themed_once ''d'' ''D'' ''data'' (Some ''sales'') None None None None)
     = themed_twice
   \<and> dataset_exists themed_once ''d''
   \<and> graph_objects (dataset_node ''d'') DCAT_theme (g themed_once) = [BNode 0]
   \<and> graph_objects (dataset_node ''d'') DCAT_theme (g themed_twice) = [BNode 1]
   \<and> (BNode 0, RDF_type, SKOS_Concept) \<in> set (g themed_twice)
   \<and> (BNode 0, SKOS_prefLabel, plain ''sales'') \<in> set (g themed_twice)"
proof -
  have n: "labels_splice None" by (simp add: labels_splice_def)
  have "snd (add_dataset q empty_catalog ''d'' ''D'' ''data'' (Some ''sales'') None None None None)
     = themed_once"
    unfolding themed_once_def using add_dataset_engine_free [OF n, of q _ _ _ _ _ _ _ _ probe_engine]
    by simp
  moreover have "snd (add_dataset q themed_once ''d'' ''D'' ''data'' (Some ''sales'') None None None None)
     = themed_twice"
    unfolding themed_twice_def using add_dataset_engine_free [OF n, of q _ _ _ _ _ _ _ _ probe_engine]
    by simp
  moreover have "dataset_exists themed_once ''d''
     \<and> graph_objects (dataset_node ''d'') DCAT_theme (g themed_once) = [BNode 0]"
    unfolding themed_once_explicit by code_simp
  moreover have "graph_objects (dataset_node ''d'') DCAT_theme (g themed_twice) = [BNode 1]
   \<and> (BNode 0, RDF_type, SKOS_Concept) \<in> set (g themed_twice)
   \<and> (BNode 0, SKOS_prefLabel, plain ''sales'') \<in> set (g themed_twice)"
    unfolding themed_twice_explicit by code_simp
  ultimately show ?thesis by blast
qed






end
